theory Spec2Isabelle
  imports Complex_Main
begin

section \<open>Python values used by tmpufw\<close>

text \<open>
  The program is one Python file, \<^verbatim>\<open>src/tmpufw.py\<close>. Strings are modelled as
  \<^typ>\<open>string\<close> over ASCII (digits are \<^verbatim>\<open>0\<close> to \<^verbatim>\<open>9\<close>, and \<^verbatim>\<open>lower\<close> changes
  \<^verbatim>\<open>A\<close> to \<^verbatim>\<open>Z\<close> only); bytes returned by a subprocess are modelled by the text they
  decode to. Text files hold lines that end in a newline character; carriage returns and
  their translation on reading are outside the model. Exceptions are values of \<open>exn\<close>; a block of \<^verbatim>\<open>main\<close> returns
  \<open>Some e\<close> when the exception \<open>e\<close> leaves it and \<open>None\<close> when control falls through.
\<close>

datatype exn =
    OverflowError
  | ValueError
  | FileNotFoundError string
  | OSError string
  | Exception string
  | CalledProcessError string
  | SystemExit int

text \<open>
  What \<^verbatim>\<open>print\<close> writes. A line whose text contains a rendered date keeps the
  rendered timestamp and the rule apart; the "deleted rule" line starts with the wall-clock
  time of the moment, which is left out.
\<close>

datatype report =
    Line string
  | StatusRow string string
  | SkippedRule string string
  | DeletedRule string

definition NL :: char where
  "NL = CHR 0x0A"

definition TAB :: char where
  "TAB = CHR 0x09"

section \<open>parse\_time (lines 34 to 50)\<close>

definition lower_char :: "char \<Rightarrow> char" where
  "lower_char c =
     (case map_of (zip ''ABCDEFGHIJKLMNOPQRSTUVWXYZ'' ''abcdefghijklmnopqrstuvwxyz'') c of
        Some l \<Rightarrow> l
      | None \<Rightarrow> c)"

definition lower :: "string \<Rightarrow> string" where
  "lower s = map lower_char s"

definition remove_spaces :: "string \<Rightarrow> string" where
  \<comment> \<open>\<^verbatim>\<open>.replace(" ", "")\<close>\<close>
  "remove_spaces s = filter (\<lambda>c. c \<noteq> CHR '' '') s"

definition isdigit :: "char \<Rightarrow> bool" where
  "isdigit c = (c \<in> set ''0123456789'')"

definition digit_val :: "char \<Rightarrow> int" where
  "digit_val c =
     (case map_of (zip ''0123456789'' [0, 1, 2, 3, 4, 5, 6, 7, 8, 9]) c of
        Some v \<Rightarrow> v
      | None \<Rightarrow> 0)"

definition py_int :: "string \<Rightarrow> int" where
  \<comment> \<open>\<^verbatim>\<open>int(param)\<close> on a non-empty run of digits; the limit of 4300 digits that recent
      interpreters put on the conversion is not modelled\<close>
  "py_int ds = foldl (\<lambda>acc c. 10 * acc + digit_val c) 0 ds"

text \<open>
  One optional group of the pattern, \<^verbatim>\<open>((?P<name>\d+?)u)?\<close>, tried at the head of
  the remaining text: it takes a non-empty run of digits followed by the unit letter \<open>u\<close>,
  and otherwise matches the empty string and sets no group. The lazy \<^verbatim>\<open>+?\<close> cannot stop
  early, since only a digit run followed directly by the letter matches.
\<close>

definition unit_group :: "char \<Rightarrow> string \<Rightarrow> string option \<times> string" where
  "unit_group u s =
     (let ds = takeWhile isdigit s; rest = dropWhile isdigit s in
      case rest of
        [] \<Rightarrow> (None, s)
      | c # rest' \<Rightarrow> if ds \<noteq> [] \<and> c = u then (Some ds, rest') else (None, s))"

record groups =
  days :: "string option"
  hours :: "string option"
  minutes :: "string option"
  seconds :: "string option"

text \<open>
  \<^verbatim>\<open>regex.match\<close> anchors at the start only. Every group is optional, so the match
  object always exists; what follows the last matched group is ignored.
\<close>

definition regex_match :: "string \<Rightarrow> groups option" where
  "regex_match s =
     (let (d, s1) = unit_group CHR ''d'' s;
          (h, s2) = unit_group CHR ''h'' s1;
          (m, s3) = unit_group CHR ''m'' s2;
          (sec, s4) = unit_group CHR ''s'' s3
      in Some \<lparr>days = d, hours = h, minutes = m, seconds = sec\<rparr>)"

text \<open>
  \<^verbatim>\<open>timedelta(days=, hours=, minutes=, seconds=)\<close>, as its number of seconds. The
  constructor normalises to whole days plus a remainder and raises \<^verbatim>\<open>OverflowError\<close>
  when the days leave the range of plus or minus 999999999.
\<close>

definition timedelta :: "int \<Rightarrow> int \<Rightarrow> int \<Rightarrow> int \<Rightarrow> exn + int" where
  "timedelta d h m s =
     (let secs = 86400 * d + 3600 * h + 60 * m + s in
      if secs div 86400 < - 999999999 \<or> 999999999 < secs div 86400
      then Inl OverflowError else Inr secs)"

definition time_param :: "string option \<Rightarrow> int" where
  \<comment> \<open>a group that is \<^verbatim>\<open>None\<close> is not passed on, and the keyword defaults to 0\<close>
  "time_param p = (case p of None \<Rightarrow> 0 | Some ds \<Rightarrow> py_int ds)"

definition parse_time :: "string \<Rightarrow> report list \<times> (exn + int)" where
  "parse_time time_str =
     (case regex_match (remove_spaces (lower time_str)) of
        None \<Rightarrow> ([], timedelta 30 0 0 0)
      | Some parts \<Rightarrow>
          (case timedelta (time_param (days parts)) (time_param (hours parts))
                  (time_param (minutes parts)) (time_param (seconds parts)) of
             Inl e \<Rightarrow> ([], Inl e)
           | Inr secs \<Rightarrow>
               if secs \<le> 0
               then ([Line ''Something with the timereading missmatched, we just take the default 30days''],
                     timedelta 30 0 0 0)
               else ([], Inr secs)))"

section \<open>The world the program runs in\<close>

text \<open>
  Python floats are outside the logic: a time is a \<^typ>\<open>real\<close> (no infinity and no
  not-a-number), the sum of two times is the sum of reals, and the conversions between
  floats and text are parameters. \<open>float_of\<close> is \<^verbatim>\<open>float(text)\<close> (\<open>None\<close>:
  it raises \<^verbatim>\<open>ValueError\<close>), \<open>str_of\<close> is \<^verbatim>\<open>str(x)\<close> on a float, and
  \<open>fromtimestamp\<close> is \<^verbatim>\<open>str(datetime.fromtimestamp(x))\<close> (\<open>None\<close>: the time is
  out of the platform's range and the call raises; the model records \<^verbatim>\<open>ValueError\<close>,
  where some platforms raise \<^verbatim>\<open>OverflowError\<close> or \<^verbatim>\<open>OSError\<close>). \<open>check_output_result\<close> is the
  firewall: given the commands run so far and the next command it yields \<open>None\<close> when the
  command exits with status 0 and \<open>Some out\<close> when \<^verbatim>\<open>check_output\<close> raises
  \<^verbatim>\<open>CalledProcessError\<close> with output \<open>out\<close>. \<open>can_open\<close> says whether opening a
  path for writing succeeds; removing, moving and creating directories are taken to succeed
  on paths that exist.
\<close>

record pyenv =
  float_of :: "string \<Rightarrow> real option"
  str_of :: "real \<Rightarrow> string"
  fromtimestamp :: "real \<Rightarrow> string option"
  check_output_result :: "string list \<Rightarrow> string \<Rightarrow> string option"
  can_open :: "string \<Rightarrow> bool"
  getpid :: string

datatype fsop =
    OpenW string
  | OpenA string
  | Write string string
  | Move string string
  | Remove string
  | MakeDirs string

text \<open>
  The state: the text files by path, the directories, what was printed, the commands handed
  to \<^verbatim>\<open>check_output\<close>, and the file-system calls made, oldest first. A write is
  taken to reach the file when it is made.
\<close>

record world =
  files :: "string \<rightharpoonup> string"
  dirs :: "string set"
  stdout :: "report list"
  ufw_calls :: "string list"
  fs_ops :: "fsop list"

definition file_name :: string where
  \<comment> \<open>\<^verbatim>\<open>__file__ = 'tmpufw'\<close>\<close>
  "file_name = ''tmpufw''"

definition pid_file :: "bool \<Rightarrow> string" where
  "pid_file dry =
     (if \<not> dry then ''/var/run/'' @ file_name @ ''.pid'' else ''./tmp/'' @ file_name @ ''.pid'')"

definition rules_file :: "bool \<Rightarrow> string" where
  "rules_file dry =
     (if \<not> dry then ''/usr/local/share/'' @ file_name @ ''/rules''
      else ''./tmp/'' @ file_name @ ''/rules'')"

definition tmp_rules_file :: "bool \<Rightarrow> string" where
  "tmp_rules_file dry =
     (if \<not> dry then ''/tmp/'' @ file_name @ ''-rules'' else ''./tmp/'' @ file_name @ ''-rules'')"

definition print :: "report \<Rightarrow> world \<Rightarrow> world" where
  "print r w = w\<lparr>stdout := stdout w @ [r]\<rparr>"

definition path_exists :: "string \<Rightarrow> world \<Rightarrow> bool" where
  "path_exists p w = (files w p \<noteq> None \<or> p \<in> dirs w)"

definition dirname :: "string \<Rightarrow> string" where
  \<comment> \<open>\<^verbatim>\<open>posixpath.dirname\<close>\<close>
  "dirname p =
     (let head = rev (dropWhile (\<lambda>c. c \<noteq> CHR ''/'') (rev p)) in
      if head \<noteq> [] \<and> \<not> list_all (\<lambda>c. c = CHR ''/'') head
      then rev (dropWhile (\<lambda>c. c = CHR ''/'') (rev head)) else head)"

definition makedirs :: "string \<Rightarrow> world \<Rightarrow> world" where
  "makedirs p w = w\<lparr>dirs := insert p (dirs w), fs_ops := fs_ops w @ [MakeDirs p]\<rparr>"

definition fs_open_w :: "string \<Rightarrow> world \<Rightarrow> world" where
  \<comment> \<open>\<^verbatim>\<open>open(p, 'w')\<close>: creates or truncates\<close>
  "fs_open_w p w = w\<lparr>files := (files w)(p \<mapsto> []), fs_ops := fs_ops w @ [OpenW p]\<rparr>"

definition fs_open_a :: "string \<Rightarrow> world \<Rightarrow> world" where
  \<comment> \<open>\<^verbatim>\<open>open(p, 'a')\<close>: creates when absent, keeps what is there\<close>
  "fs_open_a p w =
     w\<lparr>files := (files w)(p \<mapsto> (case files w p of None \<Rightarrow> [] | Some c \<Rightarrow> c)),
       fs_ops := fs_ops w @ [OpenA p]\<rparr>"

definition fs_write :: "string \<Rightarrow> string \<Rightarrow> world \<Rightarrow> world" where
  \<comment> \<open>\<^verbatim>\<open>handle.write(s)\<close> on a handle opened for writing or appending: at the end\<close>
  "fs_write p s w =
     w\<lparr>files := (files w)(p \<mapsto> (case files w p of None \<Rightarrow> [] | Some c \<Rightarrow> c) @ s),
       fs_ops := fs_ops w @ [Write p s]\<rparr>"

definition move :: "string \<Rightarrow> string \<Rightarrow> world \<Rightarrow> exn option \<times> world" where
  \<comment> \<open>\<^verbatim>\<open>shutil.move(src, dst)\<close> onto a file path, taken as one step (a rename)\<close>
  "move src dst w =
     (case files w src of
        None \<Rightarrow> (Some (FileNotFoundError src), w)
      | Some c \<Rightarrow>
          (None, w\<lparr>files := (files w)(src := None, dst \<mapsto> c),
                   fs_ops := fs_ops w @ [Move src dst]\<rparr>))"

definition remove :: "string \<Rightarrow> world \<Rightarrow> exn option \<times> world" where
  "remove p w =
     (case files w p of
        None \<Rightarrow> (Some (FileNotFoundError p), w)
      | Some c \<Rightarrow> (None, w\<lparr>files := (files w)(p := None), fs_ops := fs_ops w @ [Remove p]\<rparr>))"

text \<open>
  Iterating over a text file, and \<^verbatim>\<open>readlines\<close>: the content cut after every newline,
  each line keeping its newline; a last line without one is a line too.
\<close>

fun lines_from :: "string \<Rightarrow> string \<Rightarrow> string list" where
  "lines_from acc [] = (if acc = [] then [] else [acc])"
| "lines_from acc (c # cs) =
     (if c = NL then (acc @ [c]) # lines_from [] cs else lines_from (acc @ [c]) cs)"

definition file_lines :: "string \<Rightarrow> string list" where
  "file_lines content = lines_from [] content"

definition strip_nl :: "string \<Rightarrow> string" where
  \<comment> \<open>\<^verbatim>\<open>line.strip("\n")\<close>: newlines off both ends\<close>
  "strip_nl s = rev (dropWhile (\<lambda>c. c = NL) (rev (dropWhile (\<lambda>c. c = NL) s)))"

definition split_first_space :: "string \<Rightarrow> (string \<times> string) option" where
  \<comment> \<open>\<^verbatim>\<open>timestamp, rule = s.split(' ', 1)\<close>; \<open>None\<close>: one field only, the unpacking raises\<close>
  "split_first_space s =
     (case dropWhile (\<lambda>c. c \<noteq> CHR '' '') s of
        [] \<Rightarrow> None
      | c # rest \<Rightarrow> Some (takeWhile (\<lambda>c. c \<noteq> CHR '' '') s, rest))"

fun contains :: "string \<Rightarrow> string \<Rightarrow> bool" where
  \<comment> \<open>\<^verbatim>\<open>needle in hay\<close> on strings: a contiguous occurrence\<close>
  "contains needle [] = (needle = [])"
| "contains needle (c # cs) = (needle = take (length needle) (c # cs) \<or> contains needle cs)"

section \<open>The firewall commands (lines 168 to 185)\<close>

definition check_output :: "pyenv \<Rightarrow> string \<Rightarrow> world \<Rightarrow> string option \<times> world" where
  "check_output env command w =
     (check_output_result env (ufw_calls w) command, w\<lparr>ufw_calls := ufw_calls w @ [command]\<rparr>)"

definition ufw_insert :: "pyenv \<Rightarrow> bool \<Rightarrow> string \<Rightarrow> string \<Rightarrow> world \<Rightarrow> string option \<times> world" where
  "ufw_insert env dry position rule w =
     (let command = ''ufw insert '' @ position @ '' '' @ rule in
      if dry then (None, print (Line command) w) else check_output env command w)"

definition ufw_delete :: "pyenv \<Rightarrow> bool \<Rightarrow> string \<Rightarrow> world \<Rightarrow> string option \<times> world" where
  "ufw_delete env dry rule w =
     (let command = ''ufw delete '' @ rule in
      if dry then (None, print (Line command) w) else check_output env command w)"

definition ufw_error :: "string \<Rightarrow> exn" where
  \<comment> \<open>the exception \<^verbatim>\<open>ufw_error\<close> raises for the output of a failed command\<close>
  "ufw_error out = Exception (''ufw: '' @ out)"

section \<open>The status block of main (lines 76 to 88)\<close>

fun status_loop :: "pyenv \<Rightarrow> string list \<Rightarrow> world \<Rightarrow> exn option \<times> world" where
  "status_loop env [] w = (None, w)"
| "status_loop env (line # rest) w =
     (case split_first_space (strip_nl line) of
        None \<Rightarrow> (Some ValueError, w)
      | Some (timestamp, rule) \<Rightarrow>
          (case float_of env timestamp of
             None \<Rightarrow> (Some ValueError, w)
           | Some t \<Rightarrow>
               (case fromtimestamp env t of
                  None \<Rightarrow> (Some ValueError, w)
                | Some shown \<Rightarrow> status_loop env rest (print (StatusRow shown rule) w))))"

definition status_block :: "pyenv \<Rightarrow> bool \<Rightarrow> world \<Rightarrow> exn option \<times> world" where
  "status_block env dry w =
     (if path_exists (rules_file dry) w then
        (let w1 = print (Line (replicate 80 CHR ''=''))
                    (print (Line (''Expiration'' @ [TAB, TAB] @ ''Rule'')) w) in
         case files w1 (rules_file dry) of
           None \<Rightarrow> (Some (OSError (rules_file dry)), w1)
         | Some content \<Rightarrow> status_loop env (file_lines content) w1)
      else (Some (Exception ''There are no rules to display''), w))"

section \<open>The clean block of main (lines 90 to 126)\<close>

text \<open>
  The loop over the lines of the rules file. A line whose time is still ahead is written to
  the temporary file and reported; for any other line the rule is deleted from the
  firewall, and a failed command leaves through \<^verbatim>\<open>ufw_error\<close>, which raises.
\<close>

fun clean_loop :: "pyenv \<Rightarrow> bool \<Rightarrow> real \<Rightarrow> string list \<Rightarrow> world \<Rightarrow> exn option \<times> world" where
  "clean_loop env dry current_time [] w = (None, w)"
| "clean_loop env dry current_time (line # rest) w =
     (case split_first_space (strip_nl line) of
        None \<Rightarrow> (Some ValueError, w)
      | Some (timestamp, rule) \<Rightarrow>
          (case float_of env timestamp of
             None \<Rightarrow> (Some ValueError, w)
           | Some t \<Rightarrow>
               if current_time < t then
                 (let w1 = fs_write (tmp_rules_file dry) line w in
                  case fromtimestamp env t of
                    None \<Rightarrow> (Some ValueError, w1)
                  | Some shown \<Rightarrow>
                      clean_loop env dry current_time rest (print (SkippedRule shown rule) w1))
               else
                 (case ufw_delete env dry rule w of
                    (Some out, w1) \<Rightarrow> (Some (ufw_error out), w1)
                  | (None, w1) \<Rightarrow>
                      clean_loop env dry current_time rest (print (DeletedRule rule) w1))))"

definition clean_block :: "pyenv \<Rightarrow> bool \<Rightarrow> real \<Rightarrow> world \<Rightarrow> exn option \<times> world" where
  "clean_block env dry current_time w =
     (if path_exists (pid_file dry) w
      then (Some (Exception (file_name @ '' is already running'')), w)
      else if \<not> can_open env (pid_file dry)
      then (Some (Exception (''unable to create PID file: '' @ pid_file dry)), w)
      else
        (let w1 = fs_write (pid_file dry) (getpid env) (fs_open_w (pid_file dry) w) in
         if path_exists (rules_file dry) w1 then
           (if \<not> can_open env (tmp_rules_file dry) then (Some (OSError (tmp_rules_file dry)), w1)
            else
              (let w2 = fs_open_a (tmp_rules_file dry) w1 in
               case files w2 (rules_file dry) of
                 None \<Rightarrow> (Some (OSError (rules_file dry)), w2)
               | Some content \<Rightarrow>
                   (case clean_loop env dry current_time (file_lines content) w2 of
                      (Some e, w3) \<Rightarrow> (Some e, w3)
                    | (None, w3) \<Rightarrow>
                        (case move (tmp_rules_file dry) (rules_file dry) w3 of
                           (Some e, w4) \<Rightarrow> (Some e, w4)
                         | (None, w4) \<Rightarrow> remove (pid_file dry) w4))))
         else remove (pid_file dry) w1))"

section \<open>The rule block of main (lines 127 to 165)\<close>

text \<open>The message of \<^verbatim>\<open>ufw\<close> for a position \<open>p\<close> it cannot insert at.\<close>

definition position_error :: "string \<Rightarrow> string" where
  "position_error p = ''ERROR: Invalid position '' @ [CHR 0x27] @ p @ [CHR 0x27, NL]"

fun update_loop :: "bool \<Rightarrow> string \<Rightarrow> string \<Rightarrow> string list \<Rightarrow> world \<Rightarrow> world" where
  "update_loop dry stamp rule [] w = w"
| "update_loop dry stamp rule (line # rest) w =
     update_loop dry stamp rule rest
       (if contains rule line
        then fs_write (tmp_rules_file dry) [NL]
               (fs_write (tmp_rules_file dry) (stamp @ '' '' @ rule) w)
        else fs_write (tmp_rules_file dry) line w)"

definition rule_block ::
  "pyenv \<Rightarrow> bool \<Rightarrow> real \<Rightarrow> string \<Rightarrow> string \<Rightarrow> string \<Rightarrow> world \<Rightarrow> exn option \<times> world" where
  "rule_block env dry now rule position ttl w =
     (let rules_path = dirname (rules_file dry);
          w0 = (if \<not> path_exists rules_path w then makedirs rules_path w else w)
      in
      case parse_time ttl of
        (msgs, Inl e) \<Rightarrow> (Some e, w0\<lparr>stdout := stdout w0 @ msgs\<rparr>)
      | (msgs, Inr secs) \<Rightarrow>
          (let w1 = w0\<lparr>stdout := stdout w0 @ msgs\<rparr>;
               timestamp = now + real_of_int secs
           in
           case files w1 (rules_file dry) of
             None \<Rightarrow>
               (Some (if rules_file dry \<in> dirs w1 then OSError (rules_file dry)
                      else FileNotFoundError (rules_file dry)), w1)
           | Some content \<Rightarrow>
               if contains rule content then
                 (let w2 = print (Line ''Rule already exists, updating expiration time'') w1 in
                  if \<not> can_open env (tmp_rules_file dry)
                  then (Some (OSError (tmp_rules_file dry)), w2)
                  else
                    (let w3 = update_loop dry (str_of env timestamp) rule (file_lines content)
                                (fs_open_w (tmp_rules_file dry) w2) in
                     case move (tmp_rules_file dry) (rules_file dry) w3 of
                       (Some e, w4) \<Rightarrow> (Some e, w4)
                     | (None, w4) \<Rightarrow> (Some (SystemExit 0), w4)))
               else if \<not> can_open env (rules_file dry)
               then (Some (Exception (''unable to write to the rules file: '' @ rules_file dry)), w1)
               else
                 (let w2 = fs_write (rules_file dry) [NL]
                             (fs_write (rules_file dry) (str_of env timestamp @ '' '' @ rule)
                                (fs_open_a (rules_file dry) w1)) in
                  case ufw_insert env dry position rule w2 of
                    (None, w3) \<Rightarrow> (None, w3)
                  | (Some out, w3) \<Rightarrow>
                      if out = position_error ''1''
                      then
                        (case check_output env (''ufw '' @ rule) w3 of
                           (None, w4) \<Rightarrow> (None, w4)
                         | (Some out2, w4) \<Rightarrow> (Some (CalledProcessError out2), w4))
                      else (Some (Exception (''ufw: '' @ out)), w3))))"

section \<open>main (lines 56 to 165)\<close>

record cli_args =
  arg_status :: bool
  arg_clean :: bool
  arg_rule :: "string option"
  arg_position :: string
  arg_ttl :: string
  arg_dry_run :: bool

text \<open>
  The three blocks run in this order, each only when its option is given; an empty
  \<^verbatim>\<open>--rule\<close> is falsy and skips the last. The clock is read once in the clean
  block (\<open>t_clean\<close>) and once in the rule block (\<open>t_rule\<close>).
\<close>

definition main :: "pyenv \<Rightarrow> cli_args \<Rightarrow> real \<Rightarrow> real \<Rightarrow> world \<Rightarrow> exn option \<times> world" where
  "main env args t_clean t_rule w =
     (case (if arg_status args then status_block env (arg_dry_run args) w else (None, w)) of
        (Some e, w1) \<Rightarrow> (Some e, w1)
      | (None, w1) \<Rightarrow>
          (case (if arg_clean args then clean_block env (arg_dry_run args) t_clean w1
                 else (None, w1)) of
             (Some e, w2) \<Rightarrow> (Some e, w2)
           | (None, w2) \<Rightarrow>
               (case arg_rule args of
                  None \<Rightarrow> (None, w2)
                | Some r \<Rightarrow>
                    if r = [] then (None, w2)
                    else rule_block env (arg_dry_run args) t_rule r (arg_position args)
                           (arg_ttl args) w2)))"

section \<open>Reading the ledger\<close>

text \<open>
  The rule of a ledger line, as the status and clean blocks read it, and the lines of a
  ledger that carry a given rule.
\<close>

definition entry_rule :: "string \<Rightarrow> string option" where
  "entry_rule line = map_option snd (split_first_space (strip_nl line))"

definition entries_for :: "string \<Rightarrow> string \<Rightarrow> string list" where
  "entries_for rule content = filter (\<lambda>l. entry_rule l = Some rule) (file_lines content)"

definition delete_command :: "string \<Rightarrow> string" where
  "delete_command line = ''ufw delete '' @ (case entry_rule line of None \<Rightarrow> [] | Some r \<Rightarrow> r)"

definition line_time :: "pyenv \<Rightarrow> string \<Rightarrow> real option" where
  "line_time env line =
     (case split_first_space (strip_nl line) of
        None \<Rightarrow> None
      | Some (timestamp, rule) \<Rightarrow> float_of env timestamp)"

definition keeps :: "pyenv \<Rightarrow> real \<Rightarrow> string \<Rightarrow> bool" where
  \<comment> \<open>the line's time is still ahead of \<open>current_time\<close>\<close>
  "keeps env current_time line =
     (case line_time env line of None \<Rightarrow> False | Some t \<Rightarrow> current_time < t)"

text \<open>
  What the clean block prints for one line, and the lines it gets through: a line that
  splits into two fields with a readable time, whose time can be shown when it is still
  ahead, and whose deletion the firewall accepts (whatever was run before) when it is not.
\<close>

definition sweep_report :: "pyenv \<Rightarrow> bool \<Rightarrow> real \<Rightarrow> string \<Rightarrow> report list" where
  "sweep_report env dry current_time line =
     (case split_first_space (strip_nl line) of
        None \<Rightarrow> []
      | Some (timestamp, rule) \<Rightarrow>
          (case float_of env timestamp of
             None \<Rightarrow> []
           | Some t \<Rightarrow>
               if current_time < t
               then (case fromtimestamp env t of
                       None \<Rightarrow> []
                     | Some shown \<Rightarrow> [SkippedRule shown rule])
               else (if dry then [Line (''ufw delete '' @ rule)] else []) @ [DeletedRule rule]))"

definition good_line :: "pyenv \<Rightarrow> bool \<Rightarrow> real \<Rightarrow> string \<Rightarrow> bool" where
  "good_line env dry current_time line =
     (case split_first_space (strip_nl line) of
        None \<Rightarrow> False
      | Some (timestamp, rule) \<Rightarrow>
          (case float_of env timestamp of
             None \<Rightarrow> False
           | Some t \<Rightarrow>
               if current_time < t then fromtimestamp env t \<noteq> None
               else dry \<or> (\<forall>h. check_output_result env h (''ufw delete '' @ rule) = None)))"

text \<open>
  Lines as a text file holds them: every line but the last ends in its only newline, and
  the last is not empty and has no newline before its end.
\<close>

definition terminated :: "string \<Rightarrow> bool" where
  "terminated l = (l \<noteq> [] \<and> last l = NL \<and> NL \<notin> set (butlast l))"

fun wf_lines :: "string list \<Rightarrow> bool" where
  "wf_lines [] = True"
| "wf_lines [l] = (l \<noteq> [] \<and> NL \<notin> set (butlast l))"
| "wf_lines (l # ls) = (terminated l \<and> wf_lines ls)"

text \<open>What the update branch of the rule block writes for one line of the ledger.\<close>

definition refreshed :: "string \<Rightarrow> string \<Rightarrow> string \<Rightarrow> string" where
  "refreshed stamp rule line = (if contains rule line then stamp @ '' '' @ rule @ [NL] else line)"

text \<open>
  The world in which the loop of the clean block starts, with the marker written and the
  temporary file opened, and what the temporary file held before.
\<close>

definition sweep_start :: "pyenv \<Rightarrow> bool \<Rightarrow> world \<Rightarrow> world" where
  "sweep_start env dry w =
     fs_open_a (tmp_rules_file dry)
       (fs_write (pid_file dry) (getpid env) (fs_open_w (pid_file dry) w))"

definition stale_of :: "bool \<Rightarrow> world \<Rightarrow> string" where
  "stale_of dry w = (case files w (tmp_rules_file dry) of None \<Rightarrow> [] | Some c \<Rightarrow> c)"

text \<open>
  The world of the rule block once the directory is there and \<open>parse_time\<close> has printed, and
  the writes of the update branch for one line of the ledger.
\<close>

definition prepared :: "bool \<Rightarrow> report list \<Rightarrow> world \<Rightarrow> world" where
  "prepared dry msgs w =
     (let w0 = (if \<not> path_exists (dirname (rules_file dry)) w
                then makedirs (dirname (rules_file dry)) w else w)
      in w0\<lparr>stdout := stdout w0 @ msgs\<rparr>)"

definition refresh_ops :: "bool \<Rightarrow> string \<Rightarrow> string \<Rightarrow> string \<Rightarrow> fsop list" where
  "refresh_ops dry stamp rule line =
     (if contains rule line
      then [Write (tmp_rules_file dry) (stamp @ '' '' @ rule), Write (tmp_rules_file dry) [NL]]
      else [Write (tmp_rules_file dry) line])"

section \<open>Example environments and worlds\<close>

text \<open>
  An environment that knows the text of a few times, shows two of them, lets every file be
  opened and has a firewall that accepts every command.
\<close>

definition example_env :: pyenv where
  "example_env =
     \<lparr>float_of = map_of [(''100.0'', 100), (''200.0'', 200), (''300.0'', 300)],
      str_of = (\<lambda>x. if x = 87400 then ''87400.0'' else if x = 4600 then ''4600.0'' else ''0.0''),
      fromtimestamp = (\<lambda>x. if x = 200 then Some ''1970-01-01 00:03:20''
                            else if x = 300 then Some ''1970-01-01 00:05:00'' else None),
      check_output_result = (\<lambda>h c. None),
      can_open = (\<lambda>p. True),
      getpid = ''4242''\<rparr>"

definition world_with :: "(string \<times> string) list \<Rightarrow> world" where
  \<comment> \<open>a live-mode world holding the given files, with the ledger's directory present\<close>
  "world_with fs =
     \<lparr>files = map_of fs, dirs = {''/usr/local/share/tmpufw''}, stdout = [], ufw_calls = [],
      fs_ops = []\<rparr>"

definition ledger_three :: string where
  "ledger_three = ''100.0 allow 22'' @ [NL] @ ''200.0 allow 80'' @ [NL] @ ''300.0 allow 443'' @ [NL]"

text \<open>A firewall that refuses to delete one rule, and one that rejects a position.\<close>

definition refusing_env :: pyenv where
  "refusing_env =
     example_env\<lparr>check_output_result :=
       (\<lambda>h c. if c = ''ufw delete allow 22'' then Some ''ERROR: problem running iptables''
              else None)\<rparr>"

definition position_env :: "string \<Rightarrow> pyenv" where
  "position_env p =
     example_env\<lparr>check_output_result :=
       (\<lambda>h c. if c = ''ufw insert '' @ p @ '' allow 80'' then Some (position_error p) else None)\<rparr>"

section \<open>Strings, lines and ledger entries\<close>

lemma contains_iff: "contains n h \<longleftrightarrow> (\<exists>p s. h = p @ n @ s)"
proof (induction h)
  case Nil
  then show ?case by auto
next
  case (Cons c cs)
  have pre: "n = take (length n) (c # cs) \<longleftrightarrow> (\<exists>s. c # cs = n @ s)"
  proof
    assume "n = take (length n) (c # cs)"
    then have "c # cs = n @ drop (length n) (c # cs)"
      by (metis append_take_drop_id)
    then show "\<exists>s. c # cs = n @ s" by blast
  next
    assume "\<exists>s. c # cs = n @ s"
    then obtain s where "c # cs = n @ s" by blast
    then show "n = take (length n) (c # cs)" by simp
  qed
  have "(\<exists>p s. c # cs = p @ n @ s) \<longleftrightarrow> (\<exists>s. c # cs = n @ s) \<or> (\<exists>p s. cs = p @ n @ s)"
  proof
    assume "\<exists>p s. c # cs = p @ n @ s"
    then obtain p s where ps: "c # cs = p @ n @ s" by blast
    show "(\<exists>s. c # cs = n @ s) \<or> (\<exists>p s. cs = p @ n @ s)"
    proof (cases p)
      case Nil
      with ps show ?thesis by auto
    next
      case (Cons a p')
      with ps have "cs = p' @ n @ s" by simp
      then show ?thesis by blast
    qed
  next
    assume "(\<exists>s. c # cs = n @ s) \<or> (\<exists>p s. cs = p @ n @ s)"
    then show "\<exists>p s. c # cs = p @ n @ s"
    proof
      assume "\<exists>s. c # cs = n @ s"
      then obtain s where "c # cs = [] @ n @ s" by auto
      then show ?thesis by blast
    next
      assume "\<exists>p s. cs = p @ n @ s"
      then obtain p s where "c # cs = (c # p) @ n @ s" by auto
      then show ?thesis by blast
    qed
  qed
  with pre Cons.IH show ?case by simp
qed

lemma concat_lines_from: "concat (lines_from acc s) = acc @ s"
  by (induction s arbitrary: acc) auto

lemma concat_file_lines: "concat (file_lines s) = s"
  by (simp add: file_lines_def concat_lines_from)

lemma split_first_space_Some:
  "split_first_space s = Some (a, b) \<Longrightarrow> s = a @ '' '' @ b"
proof -
  assume h: "split_first_space s = Some (a, b)"
  have eq: "s = takeWhile (\<lambda>c. c \<noteq> CHR '' '') s @ dropWhile (\<lambda>c. c \<noteq> CHR '' '') s"
    by simp
  from h obtain c where d: "dropWhile (\<lambda>c. c \<noteq> CHR '' '') s = c # b"
    and a: "a = takeWhile (\<lambda>c. c \<noteq> CHR '' '') s"
    by (auto simp: split_first_space_def split: list.splits)
  from d have "c = CHR '' ''" using hd_dropWhile [of "\<lambda>c. c \<noteq> CHR '' ''" s] by auto
  with eq d a show ?thesis by simp
qed

lemma split_first_space_append:
  assumes "CHR '' '' \<notin> set a"
  shows "split_first_space (a @ '' '' @ b) = Some (a, b)"
proof -
  let ?P = "\<lambda>c. c \<noteq> CHR '' ''"
  from assms have "dropWhile ?P (a @ CHR '' '' # b) = CHR '' '' # b"
    by (induction a) auto
  moreover from assms have "takeWhile ?P (a @ CHR '' '' # b) = a"
    by (induction a) auto
  ultimately show ?thesis by (simp add: split_first_space_def)
qed

lemma strip_nl_infix: "\<exists>p s. line = p @ strip_nl line @ s"
proof -
  let ?P = "\<lambda>c. c = NL"
  let ?m = "dropWhile ?P line"
  have 1: "line = takeWhile ?P line @ ?m" by simp
  have "rev ?m = takeWhile ?P (rev ?m) @ dropWhile ?P (rev ?m)" by simp
  then have "?m = rev (dropWhile ?P (rev ?m)) @ rev (takeWhile ?P (rev ?m))"
    by (metis rev_append rev_rev_ident)
  then have "?m = strip_nl line @ rev (takeWhile ?P (rev ?m))"
    by (simp add: strip_nl_def)
  with 1 have "line = takeWhile ?P line @ strip_nl line @ rev (takeWhile ?P (rev ?m))"
    by simp
  then show ?thesis by blast
qed

lemma entry_rule_contains:
  assumes "entry_rule l = Some r"
  shows "contains r l"
proof -
  from assms obtain ts where "split_first_space (strip_nl l) = Some (ts, r)"
    by (auto simp: entry_rule_def)
  then have s: "strip_nl l = ts @ '' '' @ r" by (rule split_first_space_Some)
  obtain p q where "l = p @ strip_nl l @ q" using strip_nl_infix by blast
  with s have "l = (p @ ts @ '' '') @ r @ q" by simp
  then show ?thesis unfolding contains_iff by blast
qed

lemma dropWhile_nl_rev:
  "xs \<noteq> [] \<Longrightarrow> last xs \<noteq> NL \<Longrightarrow> dropWhile (\<lambda>c. c = NL) (rev xs) = rev xs"
  by (cases xs rule: rev_cases) auto

lemma dropWhile_nl_hd:
  "xs \<noteq> [] \<Longrightarrow> hd xs \<noteq> NL \<Longrightarrow> dropWhile (\<lambda>c. c = NL) xs = xs"
  by (cases xs) auto

lemma strip_nl_entry:
  assumes "NL \<notin> set stamp" "NL \<notin> set rule"
  shows "strip_nl (stamp @ '' '' @ rule @ [NL]) = stamp @ '' '' @ rule"
proof -
  let ?P = "\<lambda>c. c = NL"
  let ?body = "stamp @ CHR '' '' # rule"
  have sp: "CHR '' '' \<noteq> NL" by (simp add: NL_def)
  have "hd (?body @ [NL]) \<noteq> NL"
    using assms sp by (cases stamp) auto
  then have front: "dropWhile ?P (?body @ [NL]) = ?body @ [NL]"
    by (intro dropWhile_nl_hd) auto
  have "last ?body \<noteq> NL"
    using assms sp by (cases rule rule: rev_cases) auto
  then have rear: "dropWhile ?P (rev ?body) = rev ?body"
    by (intro dropWhile_nl_rev) auto
  have "strip_nl (?body @ [NL]) = rev (dropWhile ?P (rev (?body @ [NL])))"
    unfolding strip_nl_def front ..
  also have "\<dots> = rev (dropWhile ?P (rev ?body))" by simp
  also have "\<dots> = ?body" unfolding rear by simp
  finally show ?thesis by simp
qed

lemma entry_rule_written:
  assumes "CHR '' '' \<notin> set stamp" "NL \<notin> set stamp" "NL \<notin> set rule"
  shows "entry_rule (stamp @ '' '' @ rule @ [NL]) = Some rule"
proof -
  have "strip_nl (stamp @ '' '' @ rule @ [NL]) = stamp @ '' '' @ rule"
    using assms by (intro strip_nl_entry)
  moreover have "split_first_space (stamp @ '' '' @ rule) = Some (stamp, rule)"
    using assms by (intro split_first_space_append)
  ultimately show ?thesis by (simp add: entry_rule_def)
qed

lemma lines_from_terminated:
  "NL \<notin> set b \<Longrightarrow> lines_from acc (b @ NL # rest) = (acc @ b @ [NL]) # lines_from [] rest"
  by (induction b arbitrary: acc) auto

lemma lines_from_last:
  "NL \<notin> set b \<Longrightarrow> acc @ b \<noteq> [] \<Longrightarrow> lines_from acc b = [acc @ b]"
  by (induction b arbitrary: acc) auto

lemma wf_lines_Cons: "ys \<noteq> [] \<Longrightarrow> wf_lines (x # ys) = (terminated x \<and> wf_lines ys)"
  by (cases ys) auto

lemma wf_lines_ConsI: "terminated x \<Longrightarrow> wf_lines ys \<Longrightarrow> wf_lines (x # ys)"
  by (cases ys) (auto simp: terminated_def)

lemma terminated_split: "terminated l \<Longrightarrow> l = butlast l @ [NL]"
  by (auto simp: terminated_def) (metis append_butlast_last_id)

lemma file_lines_single:
  assumes "l \<noteq> []" "NL \<notin> set (butlast l)"
  shows "lines_from [] l = [l]"
proof (cases "last l = NL")
  case True
  with assms have "l = butlast l @ NL # []" by (metis append_butlast_last_id)
  then have "lines_from [] l = lines_from [] (butlast l @ NL # [])" by simp
  also have "\<dots> = ([] @ butlast l @ [NL]) # lines_from [] []"
    using assms(2) by (rule lines_from_terminated)
  also have "\<dots> = [l]" using \<open>l = butlast l @ NL # []\<close> by simp
  finally show ?thesis .
next
  case False
  with assms have "NL \<notin> set l"
    by (metis append_butlast_last_id in_set_butlast_appendI insert_iff list.simps(15) rotate1.simps(2) set_ConsD set_rotate1 empty_iff empty_set)
  then show ?thesis using assms(1) lines_from_last [of l "[]"] by simp
qed

lemma file_lines_concat:
  "wf_lines ls \<Longrightarrow> file_lines (concat ls) = ls"
proof (induction ls rule: wf_lines.induct)
  case 1
  then show ?case by (simp add: file_lines_def)
next
  case (2 l)
  then show ?case by (simp add: file_lines_def file_lines_single)
next
  case (3 l v va)
  then have t: "terminated l" and w: "wf_lines (v # va)" by auto
  from t have l: "l = butlast l @ [NL]" by (rule terminated_split)
  from t have nb: "NL \<notin> set (butlast l)" by (simp add: terminated_def)
  have c: "concat (l # v # va) = butlast l @ NL # concat (v # va)"
    using l by (metis append.assoc append_Cons append_Nil concat.simps(2))
  have "file_lines (concat (l # v # va)) = lines_from [] (butlast l @ NL # concat (v # va))"
    by (simp only: file_lines_def c)
  also have "\<dots> = ([] @ butlast l @ [NL]) # lines_from [] (concat (v # va))"
    using nb by (rule lines_from_terminated)
  also have "\<dots> = l # file_lines (concat (v # va))"
    using l by (simp add: file_lines_def)
  finally show ?case using 3 w by simp
qed

lemma wf_lines_from: "NL \<notin> set acc \<Longrightarrow> wf_lines (lines_from acc s)"
proof (induction s arbitrary: acc)
  case Nil
  then show ?case by (auto simp: in_set_butlastD)
next
  case (Cons c cs)
  show ?case
  proof (cases "c = NL")
    case True
    have "terminated (acc @ [c])" using True Cons.prems by (simp add: terminated_def)
    moreover have "wf_lines (lines_from [] cs)" by (rule Cons.IH) simp
    ultimately show ?thesis using True by (simp add: wf_lines_ConsI del: wf_lines.simps)
  next
    case False
    then have "NL \<notin> set (acc @ [c])" using Cons.prems by auto
    then have "wf_lines (lines_from (acc @ [c]) cs)" by (rule Cons.IH)
    then show ?thesis using False by simp
  qed
qed

lemma wf_file_lines: "wf_lines (file_lines s)"
  by (simp add: file_lines_def wf_lines_from)

lemma wf_lines_replace:
  "wf_lines (pre @ old # post) \<Longrightarrow> terminated new \<Longrightarrow> wf_lines (pre @ new # post)"
proof (induction pre)
  case Nil
  then show ?case by (cases post) (auto simp: terminated_def)
next
  case (Cons a pre)
  then show ?case by (simp add: wf_lines_Cons)
qed

lemma terminated_entry:
  "NL \<notin> set stamp \<Longrightarrow> NL \<notin> set rule \<Longrightarrow> terminated (stamp @ '' '' @ rule @ [NL])"
  by (simp add: terminated_def butlast_append NL_def)

lemma wf_lines_filter: "wf_lines ls \<Longrightarrow> wf_lines (filter P ls)"
proof (induction ls rule: wf_lines.induct)
  case 1
  then show ?case by simp
next
  case (2 l)
  then show ?case by simp
next
  case (3 l v va)
  then have "terminated l" and "wf_lines (filter P (v # va))" by auto
  then show ?case by (auto intro: wf_lines_ConsI simp del: wf_lines.simps)
qed

lemma file_lines_kept:
  "file_lines (concat (filter P (file_lines content))) = filter P (file_lines content)"
  by (intro file_lines_concat wf_lines_filter wf_file_lines)

lemma lines_from_all_terminated:
  "NL \<notin> set acc \<Longrightarrow> acc @ s = [] \<or> last (acc @ s) = NL \<Longrightarrow>
   list_all terminated (lines_from acc s)"
proof (induction s arbitrary: acc)
  case Nil
  then show ?case by (cases acc rule: rev_cases) auto
next
  case (Cons c cs)
  show ?case
  proof (cases "c = NL")
    case True
    have "terminated (acc @ [c])" using True Cons.prems(1) by (simp add: terminated_def)
    moreover have "list_all terminated (lines_from [] cs)"
      using Cons.prems(2) by (intro Cons.IH) (auto split: if_splits)
    ultimately show ?thesis using True by simp
  next
    case False
    have "list_all terminated (lines_from (acc @ [c]) cs)"
      using Cons.prems False by (intro Cons.IH) auto
    then show ?thesis using False by simp
  qed
qed

lemma all_terminated_wf: "list_all terminated ls \<Longrightarrow> wf_lines ls"
  by (induction ls) (auto intro: wf_lines_ConsI simp del: wf_lines.simps(2,3))

lemma file_lines_append_line:
  assumes "content = [] \<or> last content = NL" "terminated new"
  shows "file_lines (content @ new) = file_lines content @ [new]"
proof -
  have "list_all terminated (file_lines content)"
    unfolding file_lines_def using assms(1) by (intro lines_from_all_terminated) auto
  with assms(2) have "wf_lines (file_lines content @ [new])"
    by (intro all_terminated_wf) simp
  then have "file_lines (concat (file_lines content @ [new])) = file_lines content @ [new]"
    by (rule file_lines_concat)
  then show ?thesis by (simp add: concat_file_lines)
qed

lemma contains_in_lines:
  assumes "file_lines content = pre @ line # post" "contains rule line"
  shows "contains rule content"
proof -
  from assms(2) obtain p s where "line = p @ rule @ s" unfolding contains_iff by blast
  moreover have "content = concat pre @ line @ concat post"
    using concat_file_lines [of content] assms(1) by simp
  ultimately have "content = (concat pre @ p) @ rule @ (s @ concat post)" by simp
  then show ?thesis unfolding contains_iff by blast
qed

lemma contains_line_of:
  assumes "l \<in> set (file_lines content)" "contains rule l"
  shows "contains rule content"
proof -
  from assms(1) obtain pre post where "file_lines content = pre @ l # post"
    by (auto simp: in_set_conv_decomp)
  then show ?thesis using assms(2) by (rule contains_in_lines)
qed

lemma lines_without_rule:
  "\<not> contains rule content \<Longrightarrow> list_all (\<lambda>l. \<not> contains rule l) (file_lines content)"
  by (auto simp: list_all_iff dest: contains_line_of)

section \<open>The loops\<close>

lemma paths_distinct:
  "pid_file dry \<noteq> rules_file dry" "pid_file dry \<noteq> tmp_rules_file dry"
  "rules_file dry \<noteq> tmp_rules_file dry" "rules_file dry \<noteq> pid_file dry"
  "tmp_rules_file dry \<noteq> pid_file dry" "tmp_rules_file dry \<noteq> rules_file dry"
  by (simp_all add: pid_file_def rules_file_def tmp_rules_file_def file_name_def)

subsection \<open>The update loop\<close>

lemma update_loop_files:
  "files w (tmp_rules_file dry) = Some c \<Longrightarrow>
   files (update_loop dry stamp rule ls w) =
     (files w)(tmp_rules_file dry \<mapsto> c @ concat (map (refreshed stamp rule) ls))"
proof (induction ls arbitrary: w c)
  case Nil
  then show ?case by auto
next
  case (Cons l ls)
  let ?w = "if contains rule l
        then fs_write (tmp_rules_file dry) [NL]
               (fs_write (tmp_rules_file dry) (stamp @ '' '' @ rule) w)
        else fs_write (tmp_rules_file dry) l w"
  have f: "files ?w = (files w)(tmp_rules_file dry \<mapsto> c @ refreshed stamp rule l)"
    using Cons.prems by (auto simp: fs_write_def refreshed_def)
  then have "files ?w (tmp_rules_file dry) = Some (c @ refreshed stamp rule l)" by simp
  then have "files (update_loop dry stamp rule ls ?w) =
      (files ?w)(tmp_rules_file dry \<mapsto>
         (c @ refreshed stamp rule l) @ concat (map (refreshed stamp rule) ls))"
    by (rule Cons.IH)
  also have "\<dots> = (files w)(tmp_rules_file dry \<mapsto>
         c @ concat (map (refreshed stamp rule) (l # ls)))"
    unfolding f by simp
  finally show ?case by simp
qed

lemma update_loop_rest:
  "stdout (update_loop dry stamp rule ls w) = stdout w \<and>
   ufw_calls (update_loop dry stamp rule ls w) = ufw_calls w \<and>
   dirs (update_loop dry stamp rule ls w) = dirs w"
  by (induction ls arbitrary: w) (auto simp: fs_write_def)

lemma update_loop_ops:
  "fs_ops (update_loop dry stamp rule ls w) =
     fs_ops w @ concat (map (refresh_ops dry stamp rule) ls)"
  by (induction ls arbitrary: w) (auto simp: fs_write_def refresh_ops_def)

subsection \<open>The clean loop\<close>

lemma clean_loop_frame:
  "clean_loop env dry now ls w = (r, w') \<Longrightarrow> p \<noteq> tmp_rules_file dry \<Longrightarrow>
   files w' p = files w p \<and> dirs w' = dirs w"
proof (induction ls arbitrary: w)
  case Nil
  then show ?case by simp
next
  case (Cons l ls)
  then show ?case
    by (auto simp: fs_write_def print_def ufw_delete_def check_output_def Let_def
        split: option.splits prod.splits if_splits)
qed

lemma clean_loop_files:
  "clean_loop env dry now ls w = (None, w') \<Longrightarrow> files w (tmp_rules_file dry) = Some c \<Longrightarrow>
   files w' = (files w)(tmp_rules_file dry \<mapsto> c @ concat (filter (keeps env now) ls))"
proof (induction ls arbitrary: w c)
  case Nil
  then show ?case by auto
next
  case (Cons l ls)
  then show ?case
    by (auto simp: fs_write_def print_def ufw_delete_def check_output_def Let_def
        keeps_def line_time_def
        split: option.splits prod.splits if_splits)
qed

lemma clean_loop_calls:
  "clean_loop env dry now ls w = (None, w') \<Longrightarrow>
   ufw_calls w' = ufw_calls w @
     (if dry then [] else map delete_command (filter (\<lambda>l. \<not> keeps env now l) ls))"
proof (induction ls arbitrary: w)
  case Nil
  then show ?case by auto
next
  case (Cons l ls)
  then show ?case
    by (auto simp: fs_write_def print_def ufw_delete_def check_output_def Let_def
        keeps_def line_time_def delete_command_def entry_rule_def
        split: option.splits prod.splits if_splits)
qed

lemma clean_loop_stdout:
  "clean_loop env dry now ls w = (None, w') \<Longrightarrow>
   stdout w' = stdout w @ concat (map (sweep_report env dry now) ls)"
proof (induction ls arbitrary: w)
  case Nil
  then show ?case by auto
next
  case (Cons l ls)
  then show ?case
    by (auto simp: fs_write_def print_def ufw_delete_def check_output_def Let_def
        sweep_report_def
        split: option.splits prod.splits if_splits)
qed

lemma clean_loop_ops:
  "clean_loop env dry now ls w = (None, w') \<Longrightarrow>
   fs_ops w' = fs_ops w @ map (Write (tmp_rules_file dry)) (filter (keeps env now) ls)"
proof (induction ls arbitrary: w)
  case Nil
  then show ?case by auto
next
  case (Cons l ls)
  then show ?case
    by (auto simp: fs_write_def print_def ufw_delete_def check_output_def Let_def
        keeps_def line_time_def
        split: option.splits prod.splits if_splits)
qed

lemma clean_loop_good:
  "list_all (good_line env dry now) ls \<Longrightarrow> fst (clean_loop env dry now ls w) = None"
proof (induction ls arbitrary: w)
  case Nil
  then show ?case by auto
next
  case (Cons l ls)
  then show ?case
    by (auto simp: ufw_delete_def check_output_def Let_def good_line_def
        split: option.splits prod.splits if_splits)
qed

lemma clean_loop_append:
  "clean_loop env dry now (xs @ ys) w =
     (case clean_loop env dry now xs w of
        (None, w1) \<Rightarrow> clean_loop env dry now ys w1
      | (Some e, w1) \<Rightarrow> (Some e, w1))"
proof (induction xs arbitrary: w)
  case Nil
  then show ?case by auto
next
  case (Cons l ls)
  then show ?case
    by (auto simp: Let_def split: option.splits prod.splits if_splits)
qed

subsection \<open>The clean block\<close>

lemma sweep_start_files:
  "files (sweep_start env dry w) =
     (files w)(pid_file dry \<mapsto> getpid env, tmp_rules_file dry \<mapsto> stale_of dry w)"
  by (auto simp: sweep_start_def stale_of_def fs_open_a_def fs_write_def fs_open_w_def
      paths_distinct split: option.splits)

lemma sweep_start_rest:
  "stdout (sweep_start env dry w) = stdout w \<and> ufw_calls (sweep_start env dry w) = ufw_calls w
   \<and> dirs (sweep_start env dry w) = dirs w"
  by (simp add: sweep_start_def fs_open_a_def fs_write_def fs_open_w_def)

lemma clean_block_unfold:
  assumes "\<not> path_exists (pid_file dry) w" "can_open env (pid_file dry)"
    "can_open env (tmp_rules_file dry)" "files w (rules_file dry) = Some content"
  shows "clean_block env dry now w =
     (case clean_loop env dry now (file_lines content) (sweep_start env dry w) of
        (Some e, w3) \<Rightarrow> (Some e, w3)
      | (None, w3) \<Rightarrow>
          (case move (tmp_rules_file dry) (rules_file dry) w3 of
             (Some e, w4) \<Rightarrow> (Some e, w4)
           | (None, w4) \<Rightarrow> remove (pid_file dry) w4))"
proof -
  let ?w1 = "fs_write (pid_file dry) (getpid env) (fs_open_w (pid_file dry) w)"
  have e: "path_exists (rules_file dry) ?w1"
    using assms(4) by (simp add: path_exists_def fs_write_def fs_open_w_def paths_distinct)
  have r: "files (sweep_start env dry w) (rules_file dry) = Some content"
    using assms(4) by (simp add: sweep_start_files paths_distinct)
  show ?thesis
    using assms(1-3) e r unfolding clean_block_def Let_def sweep_start_def [symmetric]
    by simp
qed

lemma clean_block_abort:
  assumes "\<not> path_exists (pid_file dry) w" "can_open env (pid_file dry)"
    "can_open env (tmp_rules_file dry)" "files w (rules_file dry) = Some content"
    "clean_loop env dry now (file_lines content) (sweep_start env dry w) = (Some e, w3)"
  shows "clean_block env dry now w = (Some e, w3)"
  using assms(5) by (simp add: clean_block_unfold [OF assms(1-4)])

lemma clean_block_normal:
  assumes "\<not> path_exists (pid_file dry) w" "can_open env (pid_file dry)"
    "can_open env (tmp_rules_file dry)" "files w (rules_file dry) = Some content"
    "clean_loop env dry now (file_lines content) (sweep_start env dry w) = (None, w3)"
  shows "fst (clean_block env dry now w) = None
    \<and> files (snd (clean_block env dry now w)) =
        (files w)(pid_file dry := None, tmp_rules_file dry := None,
          rules_file dry \<mapsto> stale_of dry w @ concat (filter (keeps env now) (file_lines content)))
    \<and> ufw_calls (snd (clean_block env dry now w)) = ufw_calls w3
    \<and> stdout (snd (clean_block env dry now w)) = stdout w3
    \<and> dirs (snd (clean_block env dry now w)) = dirs w"
proof -
  let ?kept = "concat (filter (keeps env now) (file_lines content))"
  have t: "files (sweep_start env dry w) (tmp_rules_file dry) = Some (stale_of dry w)"
    by (simp add: sweep_start_files)
  have f3: "files w3 = (files (sweep_start env dry w))(tmp_rules_file dry \<mapsto> stale_of dry w @ ?kept)"
    using assms(5) t by (rule clean_loop_files)
  have d3: "dirs w3 = dirs w"
    using clean_loop_frame [OF assms(5), of "pid_file dry"] by (simp add: paths_distinct sweep_start_rest)
  have m: "move (tmp_rules_file dry) (rules_file dry) w3 =
      (None, w3\<lparr>files := (files w3)(tmp_rules_file dry := None, rules_file dry \<mapsto> stale_of dry w @ ?kept),
                fs_ops := fs_ops w3 @ [Move (tmp_rules_file dry) (rules_file dry)]\<rparr>)"
    by (simp add: move_def f3)
  have c: "clean_block env dry now w = remove (pid_file dry)
     (w3\<lparr>files := (files w3)(tmp_rules_file dry := None, rules_file dry \<mapsto> stale_of dry w @ ?kept),
                fs_ops := fs_ops w3 @ [Move (tmp_rules_file dry) (rules_file dry)]\<rparr>)"
    using assms(5) m by (simp add: clean_block_unfold [OF assms(1-4)])
  have p: "files w3 (pid_file dry) = Some (getpid env)"
    by (simp add: f3 sweep_start_files paths_distinct)
  show ?thesis
    unfolding c using p d3
    by (auto simp: remove_def paths_distinct f3 sweep_start_files fun_upd_twist)
qed

lemma clean_block_ops:
  assumes "\<not> path_exists (pid_file dry) w" "can_open env (pid_file dry)"
    "can_open env (tmp_rules_file dry)" "files w (rules_file dry) = Some content"
    "clean_loop env dry now (file_lines content) (sweep_start env dry w) = (None, w3)"
  shows "fs_ops (snd (clean_block env dry now w)) =
      fs_ops w @ [OpenW (pid_file dry), Write (pid_file dry) (getpid env),
                  OpenA (tmp_rules_file dry)]
        @ map (Write (tmp_rules_file dry)) (filter (keeps env now) (file_lines content))
        @ [Move (tmp_rules_file dry) (rules_file dry), Remove (pid_file dry)]"
proof -
  have t: "files (sweep_start env dry w) (tmp_rules_file dry) = Some (stale_of dry w)"
    by (simp add: sweep_start_files)
  have f3: "files w3 = (files (sweep_start env dry w))(tmp_rules_file dry \<mapsto>
      stale_of dry w @ concat (filter (keeps env now) (file_lines content)))"
    using assms(5) t by (rule clean_loop_files)
  have o3: "fs_ops w3 = fs_ops w @ [OpenW (pid_file dry), Write (pid_file dry) (getpid env),
                  OpenA (tmp_rules_file dry)]
        @ map (Write (tmp_rules_file dry)) (filter (keeps env now) (file_lines content))"
    using clean_loop_ops [OF assms(5)]
    by (simp add: sweep_start_def fs_open_a_def fs_write_def fs_open_w_def)
  show ?thesis
    using assms(5) o3
    by (simp add: clean_block_unfold [OF assms(1-4)] move_def remove_def f3 sweep_start_files
        paths_distinct)
qed

subsection \<open>The rule block\<close>

lemma dirname_rules_file: "dirname (rules_file dry) \<noteq> rules_file dry"
  by (cases dry) (simp_all add: dirname_def rules_file_def file_name_def)

lemma prepared_fields:
  "files (prepared dry msgs w) = files w"
  "ufw_calls (prepared dry msgs w) = ufw_calls w"
  "stdout (prepared dry msgs w) = stdout w @ msgs"
  "rules_file dry \<in> dirs (prepared dry msgs w) \<longleftrightarrow> rules_file dry \<in> dirs w"
  using dirname_rules_file [of dry]
  by (auto simp: prepared_def makedirs_def Let_def)

lemma rule_block_without_ledger:
  assumes "parse_time ttl = (msgs, Inr secs)" "files w (rules_file dry) = None"
    "rules_file dry \<notin> dirs w"
  shows "rule_block env dry now rule position ttl w =
     (Some (FileNotFoundError (rules_file dry)), prepared dry msgs w)"
  using assms prepared_fields [of dry msgs w]
  unfolding rule_block_def prepared_def Let_def by (simp split: if_splits)

lemma rule_block_update:
  assumes "parse_time ttl = (msgs, Inr secs)" "files w (rules_file dry) = Some content"
    "contains rule content" "can_open env (tmp_rules_file dry)"
  shows "fst (rule_block env dry now rule position ttl w) = Some (SystemExit 0)
    \<and> files (snd (rule_block env dry now rule position ttl w)) =
        (files w)(tmp_rules_file dry := None,
          rules_file dry \<mapsto>
            concat (map (refreshed (str_of env (now + real_of_int secs)) rule) (file_lines content)))
    \<and> ufw_calls (snd (rule_block env dry now rule position ttl w)) = ufw_calls w
    \<and> stdout (snd (rule_block env dry now rule position ttl w)) =
        stdout w @ msgs @ [Line ''Rule already exists, updating expiration time'']
    \<and> fs_ops (snd (rule_block env dry now rule position ttl w)) =
        fs_ops (prepared dry msgs w) @ [OpenW (tmp_rules_file dry)]
          @ concat (map (refresh_ops dry (str_of env (now + real_of_int secs)) rule)
              (file_lines content))
          @ [Move (tmp_rules_file dry) (rules_file dry)]"
proof -
  let ?stamp = "str_of env (now + real_of_int secs)"
  let ?w1 = "prepared dry msgs w"
  let ?w2 = "print (Line ''Rule already exists, updating expiration time'') ?w1"
  let ?w3 = "update_loop dry ?stamp rule (file_lines content) (fs_open_w (tmp_rules_file dry) ?w2)"
  have f1: "files ?w1 (rules_file dry) = Some content"
    using assms(2) by (simp add: prepared_fields)
  have "files (fs_open_w (tmp_rules_file dry) ?w2) (tmp_rules_file dry) = Some []"
    by (simp add: fs_open_w_def)
  then have "files ?w3 = (files (fs_open_w (tmp_rules_file dry) ?w2))(tmp_rules_file dry \<mapsto>
      [] @ concat (map (refreshed ?stamp rule) (file_lines content)))"
    by (rule update_loop_files)
  then have f3: "files ?w3 = (files w)(tmp_rules_file dry \<mapsto>
      concat (map (refreshed ?stamp rule) (file_lines content)))"
    by (simp add: fs_open_w_def print_def prepared_fields)
  have rest3: "stdout ?w3 = stdout w @ msgs @ [Line ''Rule already exists, updating expiration time'']"
    "ufw_calls ?w3 = ufw_calls w"
    "fs_ops ?w3 = fs_ops ?w1 @ [OpenW (tmp_rules_file dry)]
          @ concat (map (refresh_ops dry ?stamp rule) (file_lines content))"
    by (simp_all add: update_loop_rest update_loop_ops fs_open_w_def print_def prepared_fields)
  have run: "rule_block env dry now rule position ttl w =
      (case move (tmp_rules_file dry) (rules_file dry) ?w3 of
         (Some e, w4) \<Rightarrow> (Some e, w4)
       | (None, w4) \<Rightarrow> (Some (SystemExit 0), w4))"
    unfolding rule_block_def prepared_def Let_def
    using assms(1,3,4) f1 [unfolded prepared_def Let_def] by simp
  show ?thesis
    unfolding run using rest3 by (simp add: move_def f3)
qed

lemma rule_block_append_ops:
  assumes "parse_time ttl = (msgs, Inr secs)" "files w (rules_file dry) = Some content"
    "\<not> contains rule content" "can_open env (rules_file dry)"
  shows "fs_ops (snd (rule_block env dry now rule position ttl w)) =
      fs_ops (prepared dry msgs w) @
        [OpenA (rules_file dry),
         Write (rules_file dry) (str_of env (now + real_of_int secs) @ '' '' @ rule),
         Write (rules_file dry) [NL]]"
  using assms
  by (auto simp: rule_block_def prepared_def Let_def makedirs_def fs_open_a_def fs_write_def
      ufw_insert_def check_output_def print_def split: option.splits)

lemma refreshed_lines:
  assumes "list_all (\<lambda>l. \<not> contains rule l) (pre @ post)" "contains rule line"
  shows "map (refreshed stamp rule) (pre @ line # post) = pre @ (stamp @ '' '' @ rule @ [NL]) # post"
proof -
  have "map (refreshed stamp rule) ls = ls" if "list_all (\<lambda>l. \<not> contains rule l) ls" for ls
    using that by (induction ls) (auto simp: refreshed_def)
  with assms show ?thesis by (simp add: refreshed_def)
qed

lemma entries_for_single:
  assumes "wf_lines (pre @ line # post)" "list_all (\<lambda>l. \<not> contains rule l) (pre @ post)"
    "CHR '' '' \<notin> set stamp" "NL \<notin> set stamp" "NL \<notin> set rule"
  shows "entries_for rule (concat (pre @ (stamp @ '' '' @ rule @ [NL]) # post))
     = [stamp @ '' '' @ rule @ [NL]]"
proof -
  let ?new = "stamp @ '' '' @ rule @ [NL]"
  have "terminated ?new" using assms(4,5) by (rule terminated_entry)
  with assms(1) have "wf_lines (pre @ ?new # post)" by (rule wf_lines_replace)
  then have fl: "file_lines (concat (pre @ ?new # post)) = pre @ ?new # post"
    by (rule file_lines_concat)
  have no: "filter (\<lambda>l. entry_rule l = Some rule) ls = []"
    if "list_all (\<lambda>l. \<not> contains rule l) ls" for ls
    using that by (induction ls) (auto dest: entry_rule_contains)
  have new: "entry_rule ?new = Some rule" using assms(3-5) by (rule entry_rule_written)
  from assms(2) have "list_all (\<lambda>l. \<not> contains rule l) pre" "list_all (\<lambda>l. \<not> contains rule l) post"
    by simp_all
  then show ?thesis
    unfolding entries_for_def fl using new by (simp add: no)
qed

lemma rule_block_append:
  assumes "parse_time ttl = (msgs, Inr secs)" "files w (rules_file False) = Some content"
    "\<not> contains rule content" "can_open env (rules_file False)"
    "check_output_result env (ufw_calls w) (''ufw insert '' @ position @ '' '' @ rule) = None"
  shows "fst (rule_block env False now rule position ttl w) = None
    \<and> files (snd (rule_block env False now rule position ttl w)) =
        (files w)(rules_file False \<mapsto>
           content @ str_of env (now + real_of_int secs) @ '' '' @ rule @ [NL])
    \<and> ufw_calls (snd (rule_block env False now rule position ttl w)) =
        ufw_calls w @ [''ufw insert '' @ position @ '' '' @ rule]"
  using assms
  by (auto simp: rule_block_def Let_def makedirs_def fs_open_a_def fs_write_def ufw_insert_def
      check_output_def split: option.splits)

text \<open>
  Two installs of one rule in a row, on a ledger that ends in a newline and in which the
  rule does not occur: the first appends the entry and inserts the rule, the second only
  refreshes the entry.
\<close>

lemma install_twice:
  assumes "parse_time ttl1 = (msgs1, Inr secs1)" "parse_time ttl2 = (msgs2, Inr secs2)"
    "files w (rules_file False) = Some content" "content = [] \<or> last content = NL"
    "\<not> contains rule content"
    "can_open env (rules_file False)" "can_open env (tmp_rules_file False)"
    "check_output_result env (ufw_calls w) (''ufw insert '' @ position @ '' '' @ rule) = None"
    "NL \<notin> set rule"
    "CHR '' '' \<notin> set (str_of env (now1 + real_of_int secs1))"
    "NL \<notin> set (str_of env (now1 + real_of_int secs1))"
    "CHR '' '' \<notin> set (str_of env (now2 + real_of_int secs2))"
    "NL \<notin> set (str_of env (now2 + real_of_int secs2))"
  shows "fst (rule_block env False now1 rule position ttl1 w) = None
    \<and> fst (rule_block env False now2 rule position ttl2
             (snd (rule_block env False now1 rule position ttl1 w))) = Some (SystemExit 0)
    \<and> files (snd (rule_block env False now2 rule position ttl2
             (snd (rule_block env False now1 rule position ttl1 w)))) (rules_file False) =
        Some (content @ str_of env (now2 + real_of_int secs2) @ '' '' @ rule @ [NL])
    \<and> entries_for rule (content @ str_of env (now2 + real_of_int secs2) @ '' '' @ rule @ [NL]) =
        [str_of env (now2 + real_of_int secs2) @ '' '' @ rule @ [NL]]
    \<and> ufw_calls (snd (rule_block env False now2 rule position ttl2
             (snd (rule_block env False now1 rule position ttl1 w)))) =
        ufw_calls w @ [''ufw insert '' @ position @ '' '' @ rule]"
proof -
  let ?new1 = "str_of env (now1 + real_of_int secs1) @ '' '' @ rule @ [NL]"
  let ?new2 = "str_of env (now2 + real_of_int secs2) @ '' '' @ rule @ [NL]"
  let ?w1 = "snd (rule_block env False now1 rule position ttl1 w)"
  note first = rule_block_append [OF assms(1,3,5,6,8), of now1]
  have f1: "files ?w1 (rules_file False) = Some (content @ ?new1)"
    using first by simp
  have t1: "terminated ?new1" using assms(11,9) by (rule terminated_entry)
  have l1: "file_lines (content @ ?new1) = file_lines content @ ?new1 # []"
    using assms(4) t1 by (simp add: file_lines_append_line)
  have e1: "entry_rule ?new1 = Some rule" using assms(10,11,9) by (rule entry_rule_written)
  then have c1: "contains rule ?new1" by (rule entry_rule_contains)
  have cc: "contains rule (content @ ?new1)" using l1 c1 by (rule contains_in_lines)
  have others: "list_all (\<lambda>l. \<not> contains rule l) (file_lines content @ [])"
    using assms(5) by (simp add: lines_without_rule)
  have m: "map (refreshed (str_of env (now2 + real_of_int secs2)) rule) (file_lines (content @ ?new1))
      = file_lines content @ ?new2 # []"
    unfolding l1 using others c1 by (rule refreshed_lines)
  note second = rule_block_update [OF assms(2) f1 cc assms(7), of now2 position]
  have f2: "files (snd (rule_block env False now2 rule position ttl2 ?w1)) (rules_file False)
      = Some (content @ ?new2)"
    using second m by (simp add: concat_file_lines)
  have wf: "wf_lines (file_lines content @ ?new1 # [])"
    unfolding l1 [symmetric] by (rule wf_file_lines)
  have "entries_for rule (concat (file_lines content @ ?new2 # [])) = [?new2]"
    using wf others assms(12,13,9) by (rule entries_for_single)
  then have ent: "entries_for rule (content @ ?new2) = [?new2]"
    by (simp add: concat_file_lines)
  from first second f2 ent show ?thesis by simp
qed

subsection \<open>main\<close>

lemma main_clean_only:
  "\<not> arg_status args \<Longrightarrow> arg_clean args \<Longrightarrow> arg_rule args = None \<Longrightarrow>
   main env args t_clean t_rule w = clean_block env (arg_dry_run args) t_clean w"
  by (simp add: main_def split: prod.splits option.splits)

lemma main_rule_only:
  "\<not> arg_status args \<Longrightarrow> \<not> arg_clean args \<Longrightarrow> arg_rule args = Some r \<Longrightarrow> r \<noteq> [] \<Longrightarrow>
   main env args t_clean t_rule w =
     rule_block env (arg_dry_run args) t_rule r (arg_position args) (arg_ttl args) w"
  by (simp add: main_def)

section \<open>The duration parser\<close>

lemma regex_match_always: "regex_match s \<noteq> None"
  by (simp add: regex_match_def Let_def split: prod.splits)

lemma parse_time_result:
  "snd (parse_time s) = Inl OverflowError \<or> (\<exists>secs. 0 < secs \<and> snd (parse_time s) = Inr secs)"
  by (auto simp: parse_time_def regex_match_def timedelta_def Let_def
      split: prod.splits sum.splits if_splits)

lemma parse_time_examples:
  "snd (parse_time ''1d'') = Inr 86400"
  "snd (parse_time ''2h30m'') = Inr 9000"
  "parse_time [] =
     ([Line ''Something with the timereading missmatched, we just take the default 30days''],
      Inr 2592000)"
  "snd (parse_time ''0s'') = Inr 2592000"
  "parse_time ''1D 2H'' = parse_time ''1d2h''"
  "snd (parse_time ''1dxyz'') = Inr 86400"
  by code_simp+

text \<open>
  C4. The claim says that \<open>parse_time\<close> fails for no input string. The values the claim
  lists are the ones above, but a duration of 1000000000 days or more is outside what
  \<^verbatim>\<open>timedelta\<close> holds: for the time to live \<^verbatim>\<open>1000000000d\<close> the constructor raises
  \<^verbatim>\<open>OverflowError\<close>, which \<open>parse_time\<close> does not catch, so the caller gets an
  error and not the default of 30 days.
\<close>

theorem parse_time_overflow:
  "snd (parse_time ''1000000000d'') = Inl OverflowError"
  by code_simp

section \<open>Installing a rule\<close>

text \<open>
  C6. The claim says that the first install succeeds when the ledger file and its directory
  are absent, leaving a ledger of one entry. The rule block creates the directory and then
  opens the ledger for reading before anything has created it: the call raises
  \<^verbatim>\<open>FileNotFoundError\<close>, no file is written and the firewall is not called
  (\<open>rule_block_without_ledger\<close> for every world without the file, and here on the empty
  one).
\<close>

theorem first_install_without_ledger:
  "fst (rule_block example_env False 1000 ''allow 22'' ''1'' ''30d''
          (world_with []\<lparr>dirs := {}\<rparr>))
     = Some (FileNotFoundError (rules_file False))
   \<and> files (snd (rule_block example_env False 1000 ''allow 22'' ''1'' ''30d''
          (world_with []\<lparr>dirs := {}\<rparr>))) (rules_file False) = None
   \<and> fs_ops (snd (rule_block example_env False 1000 ''allow 22'' ''1'' ''30d''
          (world_with []\<lparr>dirs := {}\<rparr>))) = [MakeDirs (dirname (rules_file False))]
   \<and> ufw_calls (snd (rule_block example_env False 1000 ''allow 22'' ''1'' ''30d''
          (world_with []\<lparr>dirs := {}\<rparr>))) = []"
  by code_simp

text \<open>
  C5. The claim says that an existing entry counts as a duplicate only when its rule equals
  the new rule as a string. The rule block tests \<^verbatim>\<open>args.rule in handle.read()\<close>, an
  occurrence anywhere in the file: with the ledger holding \<^verbatim>\<open>allow 2222\<close>, installing
  \<^verbatim>\<open>allow 22\<close> takes the update branch, overwrites the line of the other rule and leaves
  without calling the firewall (\<open>rule_block_update\<close> is the branch for every rule that
  occurs in the file).
\<close>

theorem substring_counts_as_duplicate:
  "fst (rule_block example_env False 1000 ''allow 22'' ''1'' ''1d''
          (world_with [(rules_file False, ''100.0 allow 2222'' @ [NL])])) = Some (SystemExit 0)
   \<and> files (snd (rule_block example_env False 1000 ''allow 22'' ''1'' ''1d''
          (world_with [(rules_file False, ''100.0 allow 2222'' @ [NL])]))) (rules_file False)
       = Some (''87400.0 allow 22'' @ [NL])
   \<and> ufw_calls (snd (rule_block example_env False 1000 ''allow 22'' ''1'' ''1d''
          (world_with [(rules_file False, ''100.0 allow 2222'' @ [NL])]))) = []"
  by code_simp

text \<open>
  C7. The claim says that every change of the ledger goes to a temporary file that is then
  moved over the ledger. The update branch and the clean block do so (\<open>rule_block_update\<close>,
  \<open>clean_block_ops\<close>: writes to the temporary file, then one move); the append branch of
  the rule block opens the ledger itself for appending and writes the new line into it in
  two writes, with no temporary file and no move (\<open>rule_block_append_ops\<close> for every such
  install, and here on a ledger of one rule).
\<close>

theorem append_writes_ledger_in_place:
  "fs_ops (snd (rule_block example_env False 1000 ''allow 80'' ''1'' ''1d''
          (world_with [(rules_file False, ''100.0 allow 22'' @ [NL])]))) =
     [OpenA (rules_file False), Write (rules_file False) ''87400.0 allow 80'',
      Write (rules_file False) [NL]]"
  by code_simp

text \<open>
  C1, as stated, fails: the claim says that whenever the ledger holds an entry for the rule,
  installing it again leaves exactly one entry for it. The update branch rewrites every line
  that contains the rule, so a ledger that came to hold two entries for \<^verbatim>\<open>allow 22\<close>
  still holds two afterwards.
\<close>

theorem install_duplicates_counterexample:
  "map_option (entries_for ''allow 22'')
     (files (snd (rule_block example_env False 1000 ''allow 22'' ''1'' ''1d''
        (world_with [(rules_file False, ''100.0 allow 22'' @ [NL] @ ''200.0 allow 22'' @ [NL])])))
      (rules_file False))
   = Some [''87400.0 allow 22'' @ [NL], ''87400.0 allow 22'' @ [NL]]"
  by code_simp

text \<open>
  C1, amended. When exactly one line of the ledger contains the text of the rule, and that
  line is an entry for the rule, an install with a time to live that \<open>parse_time\<close> accepts
  leaves through \<^verbatim>\<open>exit(0)\<close> with that line replaced by the new time and the rule, every
  other line as it was, so that the ledger holds exactly one entry for the rule, and with no
  command handed to the firewall. (The new time is \<open>str_of env (now + secs)\<close>; as the text
  of a float it has no space and no newline.) \<open>install_twice\<close> above is the case of the
  same rule installed twice in a row.
\<close>

theorem install_refreshes_single_entry:
  assumes "parse_time ttl = (msgs, Inr secs)" "files w (rules_file dry) = Some content"
    "file_lines content = pre @ line # post" "entry_rule line = Some rule"
    "list_all (\<lambda>l. \<not> contains rule l) (pre @ post)"
    "can_open env (tmp_rules_file dry)" "NL \<notin> set rule"
    "CHR '' '' \<notin> set (str_of env (now + real_of_int secs))"
    "NL \<notin> set (str_of env (now + real_of_int secs))"
  shows "fst (rule_block env dry now rule position ttl w) = Some (SystemExit 0)
    \<and> files (snd (rule_block env dry now rule position ttl w)) (rules_file dry) =
        Some (concat (pre @ (str_of env (now + real_of_int secs) @ '' '' @ rule @ [NL]) # post))
    \<and> entries_for rule
        (concat (pre @ (str_of env (now + real_of_int secs) @ '' '' @ rule @ [NL]) # post)) =
        [str_of env (now + real_of_int secs) @ '' '' @ rule @ [NL]]
    \<and> ufw_calls (snd (rule_block env dry now rule position ttl w)) = ufw_calls w
    \<and> stdout (snd (rule_block env dry now rule position ttl w)) =
        stdout w @ msgs @ [Line ''Rule already exists, updating expiration time'']"
proof -
  let ?stamp = "str_of env (now + real_of_int secs)"
  let ?new = "?stamp @ '' '' @ rule @ [NL]"
  have cl: "contains rule line" using assms(4) by (rule entry_rule_contains)
  have cc: "contains rule content" using assms(3) cl by (rule contains_in_lines)
  have "map (refreshed ?stamp rule) (file_lines content) = pre @ ?new # post"
    unfolding assms(3) using assms(5) cl by (rule refreshed_lines)
  with rule_block_update [OF assms(1,2) cc assms(6), of now position]
  have run: "fst (rule_block env dry now rule position ttl w) = Some (SystemExit 0)
    \<and> files (snd (rule_block env dry now rule position ttl w)) (rules_file dry) =
        Some (concat (pre @ ?new # post))
    \<and> ufw_calls (snd (rule_block env dry now rule position ttl w)) = ufw_calls w
    \<and> stdout (snd (rule_block env dry now rule position ttl w)) =
        stdout w @ msgs @ [Line ''Rule already exists, updating expiration time'']"
    by simp
  have wf: "wf_lines (pre @ line # post)"
    using wf_file_lines [of content] by (simp add: assms(3))
  have ent: "entries_for rule (concat (pre @ ?new # post)) = [?new]"
    using wf assms(5,8,9,7) by (rule entries_for_single)
  from run ent show ?thesis by simp
qed

text \<open>C1, amended, on a ledger of three rules: the entry in the middle is refreshed.\<close>

theorem install_refreshes_single_entry_witness:
  "fst (rule_block example_env False 1000 ''allow 80'' ''1'' ''1d''
          (world_with [(rules_file False, ledger_three)])) = Some (SystemExit 0)
   \<and> files (snd (rule_block example_env False 1000 ''allow 80'' ''1'' ''1d''
          (world_with [(rules_file False, ledger_three)]))) (rules_file False)
      = Some (''100.0 allow 22'' @ [NL] @ ''87400.0 allow 80'' @ [NL] @ ''300.0 allow 443'' @ [NL])
   \<and> entries_for ''allow 80''
        (''100.0 allow 22'' @ [NL] @ ''87400.0 allow 80'' @ [NL] @ ''300.0 allow 443'' @ [NL])
      = [''87400.0 allow 80'' @ [NL]]
   \<and> ufw_calls (snd (rule_block example_env False 1000 ''allow 80'' ''1'' ''1d''
          (world_with [(rules_file False, ledger_three)]))) = []"
proof -
  let ?w = "world_with [(rules_file False, ledger_three)]"
  have h1: "parse_time ''1d'' = ([], Inr 86400)" by code_simp
  have h2: "files ?w (rules_file False) = Some ledger_three" by code_simp
  have h3: "file_lines ledger_three =
      [''100.0 allow 22'' @ [NL]] @ (''200.0 allow 80'' @ [NL]) # [''300.0 allow 443'' @ [NL]]"
    by code_simp
  have h4: "entry_rule (''200.0 allow 80'' @ [NL]) = Some ''allow 80''" by code_simp
  have h5: "list_all (\<lambda>l. \<not> contains ''allow 80'' l)
      ([''100.0 allow 22'' @ [NL]] @ [''300.0 allow 443'' @ [NL]])" by code_simp
  have h6: "can_open example_env (tmp_rules_file False)" by code_simp
  have h7: "NL \<notin> set ''allow 80''" by code_simp
  have st: "str_of example_env (1000 + real_of_int 86400) = ''87400.0''" by code_simp
  have h8: "CHR '' '' \<notin> set (str_of example_env (1000 + real_of_int 86400))"
    unfolding st by simp
  have h9: "NL \<notin> set (str_of example_env (1000 + real_of_int 86400))"
    unfolding st by (simp add: NL_def)
  have e: "ufw_calls ?w = []" by code_simp
  from install_refreshes_single_entry [OF h1 h2 h3 h4 h5 h6 h7 h8 h9, of "''1''"]
  show ?thesis unfolding st e by simp
qed

text \<open>
  C8, as stated, fails: the claim says that an insert rejected for its position is retried
  at any position. The rule block compares the output of the failed command with the
  message for position 1 only; the message for position 5 is raised as it is, and no second
  command is run.
\<close>

theorem no_retry_at_position_5_counterexample:
  "fst (rule_block (position_env ''5'') False 1000 ''allow 80'' ''5'' ''1d''
          (world_with [(rules_file False, ''100.0 allow 22'' @ [NL])]))
     = Some (Exception (''ufw: '' @ position_error ''5''))
   \<and> ufw_calls (snd (rule_block (position_env ''5'') False 1000 ''allow 80'' ''5'' ''1d''
          (world_with [(rules_file False, ''100.0 allow 22'' @ [NL])])))
     = [''ufw insert 5 allow 80'']"
  by code_simp

text \<open>
  C8, amended. When \<^verbatim>\<open>ufw insert\<close> fails for a new rule, the rule block runs
  \<^verbatim>\<open>ufw <rule>\<close> once, and only when the output is exactly the message for position 1;
  a failure of that second command leaves as its \<^verbatim>\<open>CalledProcessError\<close>. Any other
  output, the message for another position included, is raised as
  \<^verbatim>\<open>Exception("ufw: " + output)\<close> with no second command. In both cases the ledger
  keeps the line appended before the insert.
\<close>

theorem insert_retry_only_for_position_1:
  assumes "parse_time ttl = (msgs, Inr secs)" "files w (rules_file False) = Some content"
    "\<not> contains rule content" "can_open env (rules_file False)"
    "check_output_result env (ufw_calls w) (''ufw insert '' @ position @ '' '' @ rule) = Some out"
  shows "(if out = position_error ''1''
          then ufw_calls (snd (rule_block env False now rule position ttl w)) =
                 ufw_calls w @ [''ufw insert '' @ position @ '' '' @ rule, ''ufw '' @ rule]
             \<and> fst (rule_block env False now rule position ttl w) =
                 map_option CalledProcessError
                   (check_output_result env
                      (ufw_calls w @ [''ufw insert '' @ position @ '' '' @ rule]) (''ufw '' @ rule))
          else ufw_calls (snd (rule_block env False now rule position ttl w)) =
                 ufw_calls w @ [''ufw insert '' @ position @ '' '' @ rule]
             \<and> fst (rule_block env False now rule position ttl w) = Some (Exception (''ufw: '' @ out)))
    \<and> files (snd (rule_block env False now rule position ttl w)) (rules_file False) =
        Some (content @ str_of env (now + real_of_int secs) @ '' '' @ rule @ [NL])"
  using assms
  by (auto simp: rule_block_def Let_def makedirs_def fs_open_a_def fs_write_def ufw_insert_def
      check_output_def position_error_def split: option.splits)

text \<open>C8, amended, with a firewall that rejects position 1 and accepts the plain command.\<close>

theorem insert_retry_only_for_position_1_witness:
  "ufw_calls (snd (rule_block (position_env ''1'') False 1000 ''allow 80'' ''1'' ''1d''
          (world_with [(rules_file False, ''100.0 allow 22'' @ [NL])])))
     = [''ufw insert 1 allow 80'', ''ufw allow 80'']
   \<and> fst (rule_block (position_env ''1'') False 1000 ''allow 80'' ''1'' ''1d''
          (world_with [(rules_file False, ''100.0 allow 22'' @ [NL])])) = None
   \<and> files (snd (rule_block (position_env ''1'') False 1000 ''allow 80'' ''1'' ''1d''
          (world_with [(rules_file False, ''100.0 allow 22'' @ [NL])]))) (rules_file False)
     = Some (''100.0 allow 22'' @ [NL] @ ''87400.0 allow 80'' @ [NL])"
proof -
  let ?w = "world_with [(rules_file False, ''100.0 allow 22'' @ [NL])]"
  have h1: "parse_time ''1d'' = ([], Inr 86400)" by code_simp
  have h2: "files ?w (rules_file False) = Some (''100.0 allow 22'' @ [NL])" by code_simp
  have h3: "\<not> contains ''allow 80'' (''100.0 allow 22'' @ [NL])" by code_simp
  have h4: "can_open (position_env ''1'') (rules_file False)" by code_simp
  have h5: "check_output_result (position_env ''1'') (ufw_calls ?w)
      (''ufw insert '' @ ''1'' @ '' '' @ ''allow 80'') = Some (position_error ''1'')"
    by code_simp
  have e1: "check_output_result (position_env ''1'') [''ufw insert 1 allow 80'']
      ''ufw allow 80'' = None"
    by code_simp
  have e2: "ufw_calls ?w = []" by code_simp
  have e3: "str_of (position_env ''1'') (1000 + real_of_int 86400) = ''87400.0''" by code_simp
  from insert_retry_only_for_position_1 [OF h1 h2 h3 h4 h5, of 1000] e1
  show ?thesis unfolding e2 e3 by simp
qed

section \<open>The sweep\<close>

text \<open>
  C3, as stated, fails: the claim says that every entry whose time has passed has its rule
  deleted and every entry still ahead is reported as skipped. A failed deletion raises, so
  with the first deletion refused the entry after it is not reported and the expired entry
  after that is never handed to the firewall.
\<close>

theorem sweep_skips_after_failure_counterexample:
  "ufw_calls (snd (clean_block refusing_env False 250
      (world_with [(rules_file False,
         ''100.0 allow 22'' @ [NL] @ ''300.0 allow 443'' @ [NL] @ ''200.0 allow 80'' @ [NL])])))
     = [''ufw delete allow 22'']
   \<and> stdout (snd (clean_block refusing_env False 250
      (world_with [(rules_file False,
         ''100.0 allow 22'' @ [NL] @ ''300.0 allow 443'' @ [NL] @ ''200.0 allow 80'' @ [NL])])))
     = []"
  by code_simp

text \<open>
  C3, amended. For a sweep that starts with no lock marker and with the temporary file
  absent or empty, over a ledger whose lines all read (two fields, a time that parses, shown
  when it is ahead) and whose deletions the firewall all accepts: the sweep returns, the
  lines are handled in file order, each line whose time is ahead of \<open>now\<close> is kept and
  reported as skipped, each other line has its rule deleted and reported, and the rewritten
  ledger holds exactly the kept lines in their order. In dry-run mode the deletion is the
  printed command.
\<close>

theorem sweep_keeps_unexpired:
  assumes "\<not> path_exists (pid_file dry) w" "can_open env (pid_file dry)"
    "can_open env (tmp_rules_file dry)" "files w (rules_file dry) = Some content"
    "files w (tmp_rules_file dry) = None \<or> files w (tmp_rules_file dry) = Some []"
    "list_all (good_line env dry now) (file_lines content)"
  shows "fst (clean_block env dry now w) = None
    \<and> map_option file_lines (files (snd (clean_block env dry now w)) (rules_file dry)) =
        Some (filter (keeps env now) (file_lines content))
    \<and> ufw_calls (snd (clean_block env dry now w)) =
        ufw_calls w @
          (if dry then []
           else map delete_command (filter (\<lambda>l. \<not> keeps env now l) (file_lines content)))
    \<and> stdout (snd (clean_block env dry now w)) =
        stdout w @ concat (map (sweep_report env dry now) (file_lines content))"
proof -
  obtain r w3 where
    loop: "clean_loop env dry now (file_lines content) (sweep_start env dry w) = (r, w3)"
    by (cases "clean_loop env dry now (file_lines content) (sweep_start env dry w)")
  have "fst (clean_loop env dry now (file_lines content) (sweep_start env dry w)) = None"
    using assms(6) by (rule clean_loop_good)
  with loop have none: "clean_loop env dry now (file_lines content) (sweep_start env dry w) = (None, w3)"
    by simp
  have stale: "stale_of dry w = []"
    using assms(5) by (auto simp: stale_of_def)
  note n = clean_block_normal [OF assms(1-4) none]
  have "files (snd (clean_block env dry now w)) (rules_file dry) =
      Some (concat (filter (keeps env now) (file_lines content)))"
    using n stale by simp
  then have 1: "map_option file_lines (files (snd (clean_block env dry now w)) (rules_file dry)) =
        Some (filter (keeps env now) (file_lines content))"
    by (simp add: file_lines_kept)
  have 2: "ufw_calls (snd (clean_block env dry now w)) =
        ufw_calls w @
          (if dry then []
           else map delete_command (filter (\<lambda>l. \<not> keeps env now l) (file_lines content)))"
    using n clean_loop_calls [OF none] by (simp add: sweep_start_rest)
  have 3: "stdout (snd (clean_block env dry now w)) =
        stdout w @ concat (map (sweep_report env dry now) (file_lines content))"
    using n clean_loop_stdout [OF none] by (simp add: sweep_start_rest)
  from n 1 2 3 show ?thesis by simp
qed

text \<open>C3, amended, on a ledger of three rules swept at time 250.\<close>

theorem sweep_keeps_unexpired_witness:
  "fst (clean_block example_env False 250 (world_with [(rules_file False, ledger_three)])) = None
   \<and> map_option file_lines
        (files (snd (clean_block example_env False 250 (world_with [(rules_file False, ledger_three)])))
           (rules_file False)) = Some [''300.0 allow 443'' @ [NL]]
   \<and> ufw_calls (snd (clean_block example_env False 250 (world_with [(rules_file False, ledger_three)])))
       = [''ufw delete allow 22'', ''ufw delete allow 80'']
   \<and> stdout (snd (clean_block example_env False 250 (world_with [(rules_file False, ledger_three)])))
       = [DeletedRule ''allow 22'', DeletedRule ''allow 80'',
          SkippedRule ''1970-01-01 00:05:00'' ''allow 443'']"
proof -
  let ?w = "world_with [(rules_file False, ledger_three)]"
  have h1: "\<not> path_exists (pid_file False) ?w" by code_simp
  have h2: "can_open example_env (pid_file False)" by code_simp
  have h3: "can_open example_env (tmp_rules_file False)" by code_simp
  have h4: "files ?w (rules_file False) = Some ledger_three" by code_simp
  have h5: "files ?w (tmp_rules_file False) = None \<or> files ?w (tmp_rules_file False) = Some []"
    by code_simp
  have h6: "list_all (good_line example_env False 250) (file_lines ledger_three)"
    by (simp add: ledger_three_def file_lines_def good_line_def strip_nl_def split_first_space_def
        example_env_def NL_def)
  have e1: "filter (keeps example_env 250) (file_lines ledger_three) = [''300.0 allow 443'' @ [NL]]"
    by code_simp
  have e2: "map delete_command (filter (\<lambda>l. \<not> keeps example_env 250 l) (file_lines ledger_three))
     = [''ufw delete allow 22'', ''ufw delete allow 80'']"
    by code_simp
  have e3: "concat (map (sweep_report example_env False 250) (file_lines ledger_three))
     = [DeletedRule ''allow 22'', DeletedRule ''allow 80'',
          SkippedRule ''1970-01-01 00:05:00'' ''allow 443'']"
    by code_simp
  have e4: "ufw_calls ?w = []" "stdout ?w = []" by (simp_all add: world_with_def)
  from sweep_keeps_unexpired [OF h1 h2 h3 h4 h5 h6]
  show ?thesis unfolding e1 e2 e3 e4 by simp
qed

text \<open>
  C2, as stated, fails: the claim says that after a failed deletion the sweep goes on with
  the remaining entries. \<^verbatim>\<open>ufw_error\<close> raises, and nothing catches it: the second
  expired entry is never handed to the firewall.
\<close>

theorem sweep_aborts_counterexample:
  "fst (clean_block refusing_env False 250
      (world_with [(rules_file False, ''100.0 allow 22'' @ [NL] @ ''200.0 allow 80'' @ [NL])]))
     = Some (Exception ''ufw: ERROR: problem running iptables'')
   \<and> ufw_calls (snd (clean_block refusing_env False 250
      (world_with [(rules_file False, ''100.0 allow 22'' @ [NL] @ ''200.0 allow 80'' @ [NL])])))
     = [''ufw delete allow 22'']"
  by code_simp

text \<open>
  C2, amended. When the deletion of an expired entry fails, after lines that were all
  handled, the sweep raises \<^verbatim>\<open>Exception("ufw: " + output)\<close> at that entry: the ledger
  file is as it was, so the entry and all others remain in it, the lock marker stays, the
  firewall has been called for the expired lines before the entry and for the entry itself,
  and nothing after the entry is handled or reported.
\<close>

theorem sweep_delete_failure_aborts:
  assumes "\<not> path_exists (pid_file False) w" "can_open env (pid_file False)"
    "can_open env (tmp_rules_file False)" "files w (rules_file False) = Some content"
    "file_lines content = pre @ line # post"
    "list_all (good_line env False now) pre"
    "split_first_space (strip_nl line) = Some (timestamp, rule)"
    "float_of env timestamp = Some t" "\<not> now < t"
    "check_output_result env
       (ufw_calls w @ map delete_command (filter (\<lambda>l. \<not> keeps env now l) pre))
       (''ufw delete '' @ rule) = Some out"
  shows "fst (clean_block env False now w) = Some (Exception (''ufw: '' @ out))
    \<and> files (snd (clean_block env False now w)) (rules_file False) = Some content
    \<and> files (snd (clean_block env False now w)) (pid_file False) = Some (getpid env)
    \<and> ufw_calls (snd (clean_block env False now w)) =
        ufw_calls w @ map delete_command (filter (\<lambda>l. \<not> keeps env now l) pre)
          @ [''ufw delete '' @ rule]
    \<and> stdout (snd (clean_block env False now w)) =
        stdout w @ concat (map (sweep_report env False now) pre)"
proof -
  let ?start = "sweep_start env False w"
  obtain r w1 where pre: "clean_loop env False now pre ?start = (r, w1)"
    by (cases "clean_loop env False now pre ?start")
  have "fst (clean_loop env False now pre ?start) = None"
    using assms(6) by (rule clean_loop_good)
  with pre have pre_ok: "clean_loop env False now pre ?start = (None, w1)" by simp
  have calls1: "ufw_calls w1 =
      ufw_calls w @ map delete_command (filter (\<lambda>l. \<not> keeps env now l) pre)"
    using clean_loop_calls [OF pre_ok] by (simp add: sweep_start_rest)
  have out1: "stdout w1 = stdout w @ concat (map (sweep_report env False now) pre)"
    using clean_loop_stdout [OF pre_ok] by (simp add: sweep_start_rest)
  have files1: "files w1 (rules_file False) = Some content"
    "files w1 (pid_file False) = Some (getpid env)"
    using clean_loop_frame [OF pre_ok, of "rules_file False"]
      clean_loop_frame [OF pre_ok, of "pid_file False"] assms(4)
    by (simp_all add: sweep_start_files paths_distinct)
  let ?w3 = "w1\<lparr>ufw_calls := ufw_calls w1 @ [''ufw delete '' @ rule]\<rparr>"
  have step: "clean_loop env False now (line # post) w1 = (Some (ufw_error out), ?w3)"
    using assms(7-10) calls1 by (simp add: ufw_delete_def check_output_def)
  have "clean_loop env False now (file_lines content) ?start = (Some (ufw_error out), ?w3)"
    unfolding assms(5) clean_loop_append pre_ok using step by simp
  from clean_block_abort [OF assms(1-4) this]
  show ?thesis using calls1 out1 files1 by (simp add: ufw_error_def)
qed

text \<open>C2, amended, on a ledger whose second line cannot be deleted.\<close>

theorem sweep_delete_failure_aborts_witness:
  "fst (clean_block refusing_env False 250
      (world_with [(rules_file False,
         ''300.0 allow 443'' @ [NL] @ ''100.0 allow 22'' @ [NL] @ ''200.0 allow 80'' @ [NL])]))
     = Some (Exception ''ufw: ERROR: problem running iptables'')
   \<and> files (snd (clean_block refusing_env False 250
      (world_with [(rules_file False,
         ''300.0 allow 443'' @ [NL] @ ''100.0 allow 22'' @ [NL] @ ''200.0 allow 80'' @ [NL])])))
       (rules_file False)
     = Some (''300.0 allow 443'' @ [NL] @ ''100.0 allow 22'' @ [NL] @ ''200.0 allow 80'' @ [NL])
   \<and> files (snd (clean_block refusing_env False 250
      (world_with [(rules_file False,
         ''300.0 allow 443'' @ [NL] @ ''100.0 allow 22'' @ [NL] @ ''200.0 allow 80'' @ [NL])])))
       (pid_file False) = Some ''4242''
   \<and> ufw_calls (snd (clean_block refusing_env False 250
      (world_with [(rules_file False,
         ''300.0 allow 443'' @ [NL] @ ''100.0 allow 22'' @ [NL] @ ''200.0 allow 80'' @ [NL])])))
     = [''ufw delete allow 22'']
   \<and> stdout (snd (clean_block refusing_env False 250
      (world_with [(rules_file False,
         ''300.0 allow 443'' @ [NL] @ ''100.0 allow 22'' @ [NL] @ ''200.0 allow 80'' @ [NL])])))
     = [SkippedRule ''1970-01-01 00:05:00'' ''allow 443'']"
proof -
  let ?c = "''300.0 allow 443'' @ [NL] @ ''100.0 allow 22'' @ [NL] @ ''200.0 allow 80'' @ [NL]"
  let ?w = "world_with [(rules_file False, ?c)]"
  let ?pre = "[''300.0 allow 443'' @ [NL]]"
  have h1: "\<not> path_exists (pid_file False) ?w" by code_simp
  have h2: "can_open refusing_env (pid_file False)" by code_simp
  have h3: "can_open refusing_env (tmp_rules_file False)" by code_simp
  have h4: "files ?w (rules_file False) = Some ?c" by code_simp
  have h5: "file_lines ?c = ?pre @ (''100.0 allow 22'' @ [NL]) # [''200.0 allow 80'' @ [NL]]"
    by code_simp
  have h6: "list_all (good_line refusing_env False 250) ?pre"
    by (simp add: good_line_def strip_nl_def split_first_space_def
        refusing_env_def example_env_def NL_def)
  have h7: "split_first_space (strip_nl (''100.0 allow 22'' @ [NL])) = Some (''100.0'', ''allow 22'')"
    by code_simp
  have h8: "float_of refusing_env ''100.0'' = Some 100" by code_simp
  have h9: "\<not> (250::real) < 100" by simp
  have h10: "check_output_result refusing_env
       (ufw_calls ?w @ map delete_command (filter (\<lambda>l. \<not> keeps refusing_env 250 l) ?pre))
       (''ufw delete '' @ ''allow 22'') = Some ''ERROR: problem running iptables''"
    by code_simp
  have e1: "ufw_calls ?w @ map delete_command (filter (\<lambda>l. \<not> keeps refusing_env 250 l) ?pre)
       @ [''ufw delete '' @ ''allow 22''] = [''ufw delete allow 22'']"
    by code_simp
  have e2: "stdout ?w @ concat (map (sweep_report refusing_env False 250) ?pre)
       = [SkippedRule ''1970-01-01 00:05:00'' ''allow 443'']"
    by code_simp
  have e3: "getpid refusing_env = ''4242''" by code_simp
  from sweep_delete_failure_aborts [OF h1 h2 h3 h4 h5 h6 h7 h8 h9 h10]
  show ?thesis unfolding e1 e2 e3 by simp
qed

text \<open>
  C9, as stated, fails: the claim says that the lock marker is absent after every sweep,
  error paths included. Nothing removes the marker when the loop raises: after a ledger line
  that does not split into two fields the marker is still there.
\<close>

theorem stale_lock_counterexample:
  "fst (clean_block example_env False 250 (world_with [(rules_file False, ''garbage'' @ [NL])]))
     = Some ValueError
   \<and> files (snd (clean_block example_env False 250
        (world_with [(rules_file False, ''garbage'' @ [NL])]))) (pid_file False) = Some ''4242''"
  by code_simp

text \<open>
  C9, amended. A sweep that finds the lock marker raises "tmpufw is already running" and
  leaves the world as it was: no file changes and no firewall call. A sweep that finds no
  marker and can create it leaves the marker behind exactly when it raises; the marker is
  absent after every sweep that returns.
\<close>

theorem lock_protocol:
  "(path_exists (pid_file dry) w \<longrightarrow>
      clean_block env dry now w = (Some (Exception ''tmpufw is already running''), w))
   \<and> (\<not> path_exists (pid_file dry) w \<and> can_open env (pid_file dry) \<longrightarrow>
        (path_exists (pid_file dry) (snd (clean_block env dry now w)) \<longleftrightarrow>
           fst (clean_block env dry now w) \<noteq> None))"
proof (intro conjI impI)
  assume "path_exists (pid_file dry) w"
  then show "clean_block env dry now w = (Some (Exception ''tmpufw is already running''), w)"
    by (simp add: clean_block_def file_name_def)
next
  assume a: "\<not> path_exists (pid_file dry) w \<and> can_open env (pid_file dry)"
  then have nd: "pid_file dry \<notin> dirs w" by (simp add: path_exists_def)
  show "path_exists (pid_file dry) (snd (clean_block env dry now w)) \<longleftrightarrow>
           fst (clean_block env dry now w) \<noteq> None"
  proof (cases "can_open env (tmp_rules_file dry) \<and> files w (rules_file dry) \<noteq> None")
    case True
    then obtain content where c: "files w (rules_file dry) = Some content" by auto
    obtain r w3 where
      loop: "clean_loop env dry now (file_lines content) (sweep_start env dry w) = (r, w3)"
      by (cases "clean_loop env dry now (file_lines content) (sweep_start env dry w)")
    show ?thesis
    proof (cases r)
      case None
      with loop have "clean_loop env dry now (file_lines content) (sweep_start env dry w) = (None, w3)"
        by simp
      from clean_block_normal [OF _ _ _ c this] a True nd show ?thesis
        by (simp add: path_exists_def paths_distinct)
    next
      case (Some e)
      with loop have l: "clean_loop env dry now (file_lines content) (sweep_start env dry w) = (Some e, w3)"
        by simp
      have "clean_block env dry now w = (Some e, w3)"
        using a True by (intro clean_block_abort [OF _ _ _ c l]) auto
      moreover have "files w3 (pid_file dry) = Some (getpid env)"
        using clean_loop_frame [OF l, of "pid_file dry"]
        by (simp add: sweep_start_files paths_distinct)
      ultimately show ?thesis by (simp add: path_exists_def)
    qed
  next
    case False
    then show ?thesis
      using a nd
      by (auto simp: clean_block_def Let_def path_exists_def fs_write_def fs_open_w_def
          fs_open_a_def remove_def paths_distinct split: option.splits)
  qed
qed

text \<open>C9, amended, on a locked world and on a free one.\<close>

theorem lock_protocol_witness:
  "clean_block example_env False 250 (world_with [(pid_file False, ''4000'')])
     = (Some (Exception ''tmpufw is already running''), world_with [(pid_file False, ''4000'')])
   \<and> fst (clean_block example_env False 250 (world_with [(rules_file False, ledger_three)])) = None
   \<and> \<not> path_exists (pid_file False)
         (snd (clean_block example_env False 250 (world_with [(rules_file False, ledger_three)])))"
proof -
  have l: "path_exists (pid_file False) (world_with [(pid_file False, ''4000'')])" by code_simp
  have u: "\<not> path_exists (pid_file False) (world_with [(rules_file False, ledger_three)])
      \<and> can_open example_env (pid_file False)" by code_simp
  have r: "fst (clean_block example_env False 250 (world_with [(rules_file False, ledger_three)])) = None"
    by code_simp
  from lock_protocol [of False "world_with [(pid_file False, ''4000'')]" example_env 250] l
    lock_protocol [of False "world_with [(rules_file False, ledger_three)]" example_env 250] u r
  show ?thesis by simp
qed

text \<open>
  C10. The clean block opens the temporary file for appending. For a sweep that starts
  with no lock marker, a ledger, and a temporary file that already holds \<open>stale\<close>: the
  sweep returns when all lines are handled, and whenever it returns the ledger it has moved
  into place is \<open>stale\<close> followed by the kept lines.
\<close>

theorem sweep_appends_to_leftover:
  assumes "\<not> path_exists (pid_file dry) w" "can_open env (pid_file dry)"
    "can_open env (tmp_rules_file dry)" "files w (rules_file dry) = Some content"
    "files w (tmp_rules_file dry) = Some stale"
  shows "(list_all (good_line env dry now) (file_lines content) \<longrightarrow>
            fst (clean_block env dry now w) = None)
    \<and> (fst (clean_block env dry now w) = None \<longrightarrow>
          files (snd (clean_block env dry now w)) (rules_file dry) =
            Some (stale @ concat (filter (keeps env now) (file_lines content))))"
proof -
  obtain r w3 where
    loop: "clean_loop env dry now (file_lines content) (sweep_start env dry w) = (r, w3)"
    by (cases "clean_loop env dry now (file_lines content) (sweep_start env dry w)")
  have stale: "stale_of dry w = stale"
    using assms(5) by (simp add: stale_of_def)
  have a: "fst (clean_block env dry now w) = None" if "list_all (good_line env dry now) (file_lines content)"
  proof -
    have "fst (clean_loop env dry now (file_lines content) (sweep_start env dry w)) = None"
      using that by (rule clean_loop_good)
    with loop have "clean_loop env dry now (file_lines content) (sweep_start env dry w) = (None, w3)"
      by simp
    from clean_block_normal [OF assms(1-4) this] show ?thesis by simp
  qed
  have b: "files (snd (clean_block env dry now w)) (rules_file dry) =
            Some (stale @ concat (filter (keeps env now) (file_lines content)))"
    if "fst (clean_block env dry now w) = None"
  proof (cases r)
    case None
    with loop have "clean_loop env dry now (file_lines content) (sweep_start env dry w) = (None, w3)"
      by simp
    from clean_block_normal [OF assms(1-4) this] stale show ?thesis by simp
  next
    case (Some e)
    with loop have "clean_loop env dry now (file_lines content) (sweep_start env dry w) = (Some e, w3)"
      by simp
    from clean_block_abort [OF assms(1-4) this] that show ?thesis by simp
  qed
  from a b show ?thesis by blast
qed

text \<open>C10 on a ledger of three rules with one line left over in the temporary file.\<close>

theorem sweep_appends_to_leftover_witness:
  "fst (clean_block example_env False 250
          (world_with [(rules_file False, ledger_three),
                       (tmp_rules_file False, ''300.0 allow 9999'' @ [NL])])) = None
   \<and> files (snd (clean_block example_env False 250
          (world_with [(rules_file False, ledger_three),
                       (tmp_rules_file False, ''300.0 allow 9999'' @ [NL])]))) (rules_file False)
       = Some (''300.0 allow 9999'' @ [NL] @ ''300.0 allow 443'' @ [NL])"
proof -
  let ?w = "world_with [(rules_file False, ledger_three),
                       (tmp_rules_file False, ''300.0 allow 9999'' @ [NL])]"
  have h1: "\<not> path_exists (pid_file False) ?w" by code_simp
  have h2: "can_open example_env (pid_file False)" by code_simp
  have h3: "can_open example_env (tmp_rules_file False)" by code_simp
  have h4: "files ?w (rules_file False) = Some ledger_three" by code_simp
  have h5: "files ?w (tmp_rules_file False) = Some (''300.0 allow 9999'' @ [NL])" by code_simp
  have h6: "list_all (good_line example_env False 250) (file_lines ledger_three)"
    by (simp add: ledger_three_def file_lines_def good_line_def strip_nl_def split_first_space_def
        example_env_def NL_def)
  have e1: "concat (filter (keeps example_env 250) (file_lines ledger_three)) = ''300.0 allow 443'' @ [NL]"
    by code_simp
  from sweep_appends_to_leftover [OF h1 h2 h3 h4 h5, of 250] h6
  show ?thesis unfolding e1 by simp
qed

end
